theory Spec2Isabelle
  imports Main "HOL-Library.Word"
begin

unbundle bit_operations_syntax

section \<open>Configuration\<close>

text \<open>
  The preprocessor constants of \<^verbatim>\<open>hope.ino\<close>. C \<^verbatim>\<open>int\<close> values are modelled as
  \<open>int\<close> (none of the computations below leaves the 32-bit range), \<^verbatim>\<open>uint8_t\<close> as
  \<open>8 word\<close>, \<^verbatim>\<open>uint16_t\<close> as \<open>16 word\<close> and \<^verbatim>\<open>unsigned long\<close> (32 bits on the
  target) as \<open>32 word\<close>. Digital levels are booleans: \<open>HIGH\<close> is \<open>True\<close>.
\<close>

abbreviation (input) SCREEN_W :: int where "SCREEN_W \<equiv> 128"
abbreviation (input) SCREEN_H :: int where "SCREEN_H \<equiv> 160"
abbreviation (input) PASS_LENGTH :: int where "PASS_LENGTH \<equiv> 4"
abbreviation (input) TIMEOUT_MS :: "32 word" where "TIMEOUT_MS \<equiv> 5000"
abbreviation (input) DEBOUNCE :: nat where "DEBOUNCE \<equiv> 60"

abbreviation (input) VIB_SHORT :: "16 word" where "VIB_SHORT \<equiv> 50"
abbreviation (input) VIB_MEDIUM :: "16 word" where "VIB_MEDIUM \<equiv> 100"
abbreviation (input) VIB_LONG :: "16 word" where "VIB_LONG \<equiv> 150"
abbreviation (input) VIB_PATTERN_GAP :: nat where "VIB_PATTERN_GAP \<equiv> 40"

abbreviation (input) HIGH :: bool where "HIGH \<equiv> True"
abbreviation (input) LOW :: bool where "LOW \<equiv> False"

abbreviation (input) BG_COLOR :: "16 word" where "BG_COLOR \<equiv> 0xEF7D"
abbreviation (input) CARD_BG :: "16 word" where "CARD_BG \<equiv> 0xFFFF"
abbreviation (input) TEXT_DARK :: "16 word" where "TEXT_DARK \<equiv> 0x2945"
abbreviation (input) ACCENT_BLUE :: "16 word" where "ACCENT_BLUE \<equiv> 0x4D7F"
abbreviation (input) ACCENT_PURPLE :: "16 word" where "ACCENT_PURPLE \<equiv> 0x9A7F"
abbreviation (input) ACCENT_PINK :: "16 word" where "ACCENT_PINK \<equiv> 0xFBDA"
abbreviation (input) ACCENT_ORANGE :: "16 word" where "ACCENT_ORANGE \<equiv> 0xFC60"
abbreviation (input) SUCCESS_GREEN :: "16 word" where "SUCCESS_GREEN \<equiv> 0x07E0"
abbreviation (input) ERROR_RED :: "16 word" where "ERROR_RED \<equiv> 0xF800"
abbreviation (input) CIRCLE_EMPTY :: "16 word" where "CIRCLE_EMPTY \<equiv> 0xD69A"

section \<open>Data model\<close>

datatype State = BOOTING | LOCKED | UNLOCKING | MENU | CONTENT

text \<open>The value of \<^verbatim>\<open>rgbLeds.Color(r, g, b)\<close>, kept as its three channels.\<close>

datatype led_color = Color nat nat nat

text \<open>
  Rendering routines whose bodies consist of display primitives only and that no
  property below looks into are recorded as one event each, holding the routine and
  everything it reads: its arguments and the globals it consults.
\<close>

datatype routine =
    LockScreen "8 word" "8 word list"
  | PasscodeCircles "8 word" "8 word list"
  | MenuItem int bool
  | LetterContent "8 word"
  | QuoteContent "8 word"
  | AboutContent "8 word" bool

text \<open>
  Everything the firmware does to the outside world, in program order: the vibration
  motor pin, \<^verbatim>\<open>delay\<close>, the LED strip and the display.
\<close>

datatype event =
    MotorWrite bool
  | Delay nat
  | SetPixelColor int led_color
  | LedShow
  | StartWrite
  | EndWrite
  | SetAddrWindow int int int int
  | PushColor "16 word"
  | FillRect int int int int "16 word"
  | DrawFastHLine int int int "16 word"
  | FillRoundRect int int int int int "16 word"
  | DrawRoundRect int int int int int "16 word"
  | FillCircle int int int "16 word"
  | DrawCircle int int int "16 word"
  | SetTextSize int
  | SetTextColor "16 word"
  | SetCursor int int
  | Print string
  | Draw routine

text \<open>The globals of the sketch, and the events emitted so far.\<close>

record device =
  currentState :: State
  sdCardDetected :: bool
  enteredPasscode :: "8 word list"
  passIndex :: "8 word"
  lastPressTime :: "32 word"
  lastButton0 :: bool
  lastButton1 :: bool
  lastButtonSelect :: bool
  lastButtonBack :: bool
  selectedMenuItem :: "8 word"
  currentPage :: "8 word"
  maxPages :: "8 word"
  lastMemoryPage :: "8 word"
  trace :: "event list"

definition emit :: "event list \<Rightarrow> device \<Rightarrow> device" where
  "emit es s = s\<lparr>trace := trace s @ es\<rparr>"

definition CORRECT_PASSCODE :: "8 word list" where
  "CORRECT_PASSCODE = [0, 0, 0, 0]"

section \<open>Loops that only emit events\<close>

text \<open>
  \<^verbatim>\<open>for (int i = a; i < n; i++) body\<close> where the body only drives outputs: the events
  of the iterations, in order. (A loop with the test \<^verbatim>\<open>i <= n\<close> is this loop up to
  \<open>n + 1\<close>.)
\<close>

function for_events :: "int \<Rightarrow> int \<Rightarrow> (int \<Rightarrow> event list) \<Rightarrow> event list" where
  "for_events i n body = (if i < n then body i @ for_events (i + 1) n body else [])"
  by pat_completeness auto
termination
  by (relation "measure (\<lambda>(i, n, body). nat (n - i))") auto

declare for_events.simps [simp del]

text \<open>C division truncates towards zero.\<close>

definition c_div :: "int \<Rightarrow> int \<Rightarrow> int" where
  "c_div a b = sgn a * sgn b * (\<bar>a\<bar> div \<bar>b\<bar>)"

section \<open>Vibration\<close>

text \<open>
  The durations are \<^verbatim>\<open>uint16_t\<close> parameters and the pulse count a \<^verbatim>\<open>uint8_t\<close>; the
  three \<^verbatim>\<open>VIB_\<close> durations are only ever passed as such a parameter. The counter of
  \<^verbatim>\<open>vibratePattern\<close> is a \<^verbatim>\<open>uint8_t\<close> that stays below \<^verbatim>\<open>count\<close>, so it never
  wraps, and \<^verbatim>\<open>i < count - 1\<close> is compared after promotion to \<^verbatim>\<open>int\<close>.
\<close>

definition vibrate :: "16 word \<Rightarrow> event list" where
  "vibrate duration = [MotorWrite HIGH, Delay (unat duration), MotorWrite LOW]"

definition vibratePattern :: "8 word \<Rightarrow> 16 word \<Rightarrow> 16 word \<Rightarrow> event list" where
  "vibratePattern count onTime offTime =
     for_events 0 (uint count) (\<lambda>i.
       [MotorWrite HIGH, Delay (unat onTime), MotorWrite LOW]
       @ (if i < uint count - 1 then [Delay (unat offTime)] else []))"

definition successVibration :: "event list" where
  "successVibration =
     vibrate VIB_SHORT @ [Delay VIB_PATTERN_GAP] @ vibrate VIB_SHORT
     @ [Delay VIB_PATTERN_GAP] @ vibrate VIB_LONG"

definition errorVibration :: "event list" where
  "errorVibration = vibrate VIB_LONG @ [Delay VIB_PATTERN_GAP] @ vibrate VIB_SHORT"

definition menuNavigationVibration :: "event list" where
  "menuNavigationVibration = vibrate VIB_SHORT"

definition buttonPressVibration :: "event list" where
  "buttonPressVibration = vibrate 30"

definition unlockVibration :: "event list" where
  "unlockVibration = vibratePattern 3 60 40"

definition pageTurnVibration :: "event list" where
  "pageTurnVibration = vibrate VIB_SHORT"

section \<open>Passcode check\<close>

function checkPasscode_from :: "int \<Rightarrow> 8 word list \<Rightarrow> bool" where
  "checkPasscode_from i entered =
     (if i < PASS_LENGTH then
        (if entered ! nat i \<noteq> CORRECT_PASSCODE ! nat i then False
         else checkPasscode_from (i + 1) entered)
      else True)"
  by pat_completeness auto
termination
  by (relation "measure (\<lambda>(i, entered). nat (PASS_LENGTH - i))") auto

declare checkPasscode_from.simps [simp del]

definition checkPasscode :: "device \<Rightarrow> bool" where
  "checkPasscode s = checkPasscode_from 0 (enteredPasscode s)"

text \<open>
  The loop \<^verbatim>\<open>for (int i = 0; i < PASS_LENGTH; i++) enteredPasscode[i] = 0;\<close>, which
  the idle timeout and the failure animation both run.
\<close>

function clearPasscode_from :: "int \<Rightarrow> 8 word list \<Rightarrow> 8 word list" where
  "clearPasscode_from i entered =
     (if i < PASS_LENGTH then clearPasscode_from (i + 1) (entered[nat i := 0])
      else entered)"
  by pat_completeness auto
termination
  by (relation "measure (\<lambda>(i, entered). nat (PASS_LENGTH - i))") auto

declare clearPasscode_from.simps [simp del]

section \<open>Colour helpers\<close>

definition RGB :: "8 word \<Rightarrow> 8 word \<Rightarrow> 8 word \<Rightarrow> 16 word" where
  "RGB r g b =
     word_of_int (push_bit 8 (uint r AND 0xF8) OR push_bit 3 (uint g AND 0xFC)
                  OR drop_bit 3 (uint b))"

definition setRGBLeds :: "led_color \<Rightarrow> event list" where
  "setRGBLeds color = for_events 0 3 (\<lambda>i. [SetPixelColor i color]) @ [LedShow]"

definition rgbPulseEffect :: "led_color \<Rightarrow> event list" where
  "rgbPulseEffect color =
     for_events 0 3 (\<lambda>i.
       setRGBLeds color @ [Delay 80] @ setRGBLeds (Color 0 0 0) @ [Delay 80])
     @ setRGBLeds color"

definition rgbRainbow :: "event list" where
  "rgbRainbow =
     [SetPixelColor 0 (Color 150 50 200), SetPixelColor 1 (Color 255 100 180),
      SetPixelColor 2 (Color 0 100 255), LedShow]"

section \<open>Images\<close>

text \<open>
  The pixel table \<^verbatim>\<open>pic1\<close> comes from a header that is not part of the sources at
  hand, so the routines that read it take it as a parameter: the array as a function
  of the index.
\<close>

definition drawFullScreenImage :: "(int \<Rightarrow> 16 word) \<Rightarrow> event list" where
  "drawFullScreenImage imageData =
     [StartWrite, SetAddrWindow 0 0 SCREEN_W SCREEN_H]
     @ for_events 0 (SCREEN_W * SCREEN_H) (\<lambda>i. [PushColor (imageData i)])
     @ [EndWrite]"

definition slideStep :: "(int \<Rightarrow> 16 word) \<Rightarrow> bool \<Rightarrow> int \<Rightarrow> int \<Rightarrow> event list" where
  "slideStep pic1 direction stepSize i =
     (let offset = i * stepSize in
      (if direction then
         [SetAddrWindow 0 0 offset SCREEN_H]
         @ for_events 0 SCREEN_H (\<lambda>y.
             for_events 0 offset (\<lambda>x.
               (let srcX = SCREEN_W - offset + x;
                    pixelIndex = y * SCREEN_W + srcX
                in [PushColor (pic1 pixelIndex)])))
       else
         [SetAddrWindow (SCREEN_W - offset) 0 offset SCREEN_H]
         @ for_events 0 SCREEN_H (\<lambda>y.
             for_events 0 offset (\<lambda>x.
               (let srcX = x;
                    pixelIndex = y * SCREEN_W + srcX
                in [PushColor (pic1 pixelIndex)]))))
      @ [Delay 8])"

definition slideAnimation :: "(int \<Rightarrow> 16 word) \<Rightarrow> bool \<Rightarrow> event list" where
  "slideAnimation pic1 direction =
     (let steps = 16;
          stepSize = SCREEN_W div steps
      in for_events 1 (steps + 1) (slideStep pic1 direction stepSize)
         @ drawFullScreenImage pic1)"

section \<open>Lock screen\<close>

text \<open>The background gradient of the lock screen, rows \<open>y0\<close> up to \<open>y1\<close>.\<close>

definition lockGradient :: "int \<Rightarrow> int \<Rightarrow> int \<Rightarrow> int \<Rightarrow> event list" where
  "lockGradient y0 y1 x w =
     for_events y0 y1 (\<lambda>y.
       (let shade = (word_of_int (235 - y div 15) :: 8 word)
        in [DrawFastHLine x y w (RGB shade (shade + 5) (shade + 10))]))"

text \<open>The background gradient of the menu and content screens.\<close>

definition menuGradient :: "int \<Rightarrow> int \<Rightarrow> event list" where
  "menuGradient y0 y1 =
     for_events y0 y1 (\<lambda>y.
       (let shade = (word_of_int (245 - y div 12) :: 8 word)
        in [DrawFastHLine 0 y SCREEN_W (RGB (shade - 5) shade (shade + 8))]))"

definition drawPasscodeCircles :: "device \<Rightarrow> device" where
  "drawPasscodeCircles s = emit [Draw (PasscodeCircles (passIndex s) (enteredPasscode s))] s"

definition drawLockScreen :: "device \<Rightarrow> device" where
  "drawLockScreen s = emit [Draw (LockScreen (passIndex s) (enteredPasscode s))] s"

text \<open>The banner that both animations blink: clear, gradient, text, clear, gradient.\<close>

definition blinkBanner :: "16 word \<Rightarrow> int \<Rightarrow> string \<Rightarrow> event list" where
  "blinkBanner color cx label =
     for_events 0 2 (\<lambda>blink.
       [FillRect 10 60 108 35 BG_COLOR, Delay 20]
       @ lockGradient 60 95 10 108
       @ [Delay 15, SetTextSize 2, SetTextColor color, SetCursor cx 70, Print label, Delay 300,
          FillRect 10 60 108 35 BG_COLOR]
       @ lockGradient 60 95 10 108
       @ [Delay 200])"

definition showUnlockAnimation :: "device \<Rightarrow> device" where
  "showUnlockAnimation s =
     emit (rgbPulseEffect (Color 0 255 0)
           @ successVibration
           @ blinkBanner SUCCESS_GREEN 22 ''UNLOCKED''
           @ [FillRect 10 60 108 35 BG_COLOR]
           @ lockGradient 60 95 10 108
           @ [Delay 15, SetTextSize 2, SetTextColor SUCCESS_GREEN, SetCursor 22 70,
              Print ''UNLOCKED'']
           @ rgbRainbow
           @ [Delay 300]) s"

definition showLockedAnimation :: "device \<Rightarrow> device" where
  "showLockedAnimation s =
     (let s1 = emit (for_events 0 3 (\<lambda>i.
                       setRGBLeds (Color 255 0 0) @ vibrate VIB_SHORT
                       @ setRGBLeds (Color 0 0 0) @ [Delay 100])
                     @ errorVibration
                     @ blinkBanner ERROR_RED 28 ''LOCKED'') s;
          s2 = s1\<lparr>passIndex := 0\<rparr>;
          s3 = s2\<lparr>enteredPasscode := clearPasscode_from 0 (enteredPasscode s2)\<rparr>;
          s4 = emit (setRGBLeds (Color 0 100 255)) s3
      in drawLockScreen s4)"

section \<open>Menu\<close>

definition drawMenuItem :: "int \<Rightarrow> bool \<Rightarrow> event list" where
  "drawMenuItem itemIndex isSelected = [Draw (MenuItem itemIndex isSelected)]"

definition drawMenu :: "device \<Rightarrow> device" where
  "drawMenu s =
     emit (setRGBLeds (Color 150 50 200)
           @ unlockVibration
           @ menuGradient 0 SCREEN_H
           @ (let titleY = 8 in
              [FillRoundRect 24 (titleY + 3) 80 28 14 (RGB 180 185 195),
               FillRoundRect 23 titleY 80 28 14 CARD_BG]
              @ for_events 0 3 (\<lambda>i.
                  [DrawRoundRect (23 + i) (titleY + i) (80 - i * 2) (28 - i * 2) (14 - i)
                     ACCENT_PURPLE]))
           @ [SetTextSize 2, SetTextColor TEXT_DARK, SetCursor 41 15, Print ''MENU'',
              FillCircle 15 45 2 ACCENT_PURPLE, FillCircle 113 45 2 ACCENT_PURPLE]
           @ for_events 0 2 (\<lambda>i. [DrawFastHLine 20 (45 + i) 88 (RGB 210 215 225)])
           @ for_events 0 4 (\<lambda>i. drawMenuItem i (i = uint (selectedMenuItem s)))) s"

section \<open>Content screens\<close>

definition titles :: "string list" where
  "titles = [''Hope Letter'', ''Memories'', ''Quote'', ''About'']"

definition colors :: "16 word list" where
  "colors = [ACCENT_PURPLE, ACCENT_PINK, ACCENT_BLUE, ACCENT_ORANGE]"

text \<open>
  The dots of \<^verbatim>\<open>drawPageIndicator\<close>, as a function of the two globals it reads,
  \<^verbatim>\<open>maxPages\<close> and \<^verbatim>\<open>currentPage\<close>.
\<close>

definition pageIndicator :: "8 word \<Rightarrow> 8 word \<Rightarrow> event list" where
  "pageIndicator maxP curP =
     (if uint maxP \<le> 1 then []
      else
        (let dotSize = 4;
             spacing = 9;
             totalWidth = uint maxP * dotSize + (uint maxP - 1) * spacing;
             startX = c_div (SCREEN_W - totalWidth) 2;
             dotY = 148
         in for_events 0 (uint maxP) (\<lambda>i.
              (let x = startX + i * (dotSize + spacing) + dotSize div 2
               in if i = uint curP then
                    [FillCircle x dotY dotSize ACCENT_PURPLE,
                     DrawCircle x dotY (dotSize + 1) ACCENT_PURPLE]
                  else
                    [DrawCircle x dotY 2 CIRCLE_EMPTY,
                     FillCircle x dotY 1 CIRCLE_EMPTY]))))"

definition drawPageIndicator :: "device \<Rightarrow> device" where
  "drawPageIndicator s = emit (pageIndicator (maxPages s) (currentPage s)) s"

definition drawLetterContent :: "8 word \<Rightarrow> event list" where
  "drawLetterContent page = [Draw (LetterContent page)]"

definition drawQuoteContent :: "8 word \<Rightarrow> event list" where
  "drawQuoteContent page = [Draw (QuoteContent page)]"

definition drawAboutContent :: "8 word \<Rightarrow> device \<Rightarrow> device" where
  "drawAboutContent page s = emit [Draw (AboutContent page (sdCardDetected s))] s"

text \<open>
  The title bar of a content screen: gradient background, a shadowed rounded bar in
  the entry's colour and the centred title. The two local tables have four entries; the
  index is the menu selection, which stays below 4.
\<close>

definition titleBar :: "int \<Rightarrow> event list" where
  "titleBar contentIndex =
     menuGradient 0 SCREEN_H
     @ [FillRoundRect 6 7 116 22 10 (RGB 180 185 195),
        FillRoundRect 5 5 116 22 10 (colors ! nat contentIndex),
        SetTextSize 1, SetTextColor CARD_BG]
     @ (let titleW = int (length (titles ! nat contentIndex)) * 6
        in [SetCursor ((SCREEN_W - titleW) div 2) 12, Print (titles ! nat contentIndex)])"

definition showContent :: "(int \<Rightarrow> 16 word) \<Rightarrow> int \<Rightarrow> device \<Rightarrow> device" where
  "showContent pic1 contentIndex s =
     (let s1 = (if contentIndex = 0 then s\<lparr>maxPages := 6\<rparr>
                else if contentIndex = 1 then s\<lparr>maxPages := 3\<rparr>
                else if contentIndex = 2 then s\<lparr>maxPages := 2\<rparr>
                else if contentIndex = 3 then s\<lparr>maxPages := 1\<rparr>
                else s);
          s2 = s1\<lparr>currentPage := 0\<rparr>;
          s3 = s2\<lparr>lastMemoryPage := 0\<rparr>;
          s4 = emit (vibrate VIB_MEDIUM) s3
      in if contentIndex = 1 then
           (let s5 = emit (drawFullScreenImage pic1) s4
            in if uint (maxPages s5) > 1 then drawPageIndicator s5 else s5)
         else
           (let s5 = emit (titleBar contentIndex) s4;
                s6 = (if contentIndex = 0 \<or> contentIndex = 2 then
                        (if contentIndex = 0 then emit (drawLetterContent (currentPage s5)) s5
                         else if contentIndex = 2 then emit (drawQuoteContent (currentPage s5)) s5
                         else s5)
                      else if contentIndex = 3 then drawAboutContent (currentPage s5) s5
                      else s5)
            in if uint (maxPages s6) > 1 then drawPageIndicator s6 else s6))"

definition updatePageContent :: "(int \<Rightarrow> 16 word) \<Rightarrow> int \<Rightarrow> device \<Rightarrow> device" where
  "updatePageContent pic1 contentIndex s =
     (let s1 = emit pageTurnVibration s
      in if contentIndex = 1 then
           (let slideDirection = (currentPage s1 > lastMemoryPage s1);
                s2 = s1\<lparr>lastMemoryPage := currentPage s1\<rparr>;
                s3 = emit (slideAnimation pic1 slideDirection) s2
            in if uint (maxPages s3) > 1 then drawPageIndicator s3 else s3)
         else
           (let s2 = (if contentIndex = 0 \<or> contentIndex = 2 then
                        (let s1a = emit ([FillRect 0 31 SCREEN_W 113 BG_COLOR]
                                         @ menuGradient 31 144) s1
                         in if contentIndex = 0 then emit (drawLetterContent (currentPage s1a)) s1a
                            else if contentIndex = 2 then emit (drawQuoteContent (currentPage s1a)) s1a
                            else s1a)
                      else if contentIndex = 3 then drawAboutContent (currentPage s1) s1
                      else s1)
            in if uint (maxPages s2) > 1 then drawPageIndicator s2 else s2))"

section \<open>Button handling\<close>

text \<open>
  What one pass of \<^verbatim>\<open>loop\<close> reads from the hardware, in the order the code reads it:
  the first sample of each pin, the second sample taken after the settle delay (read
  only after a falling edge), the value of \<^verbatim>\<open>millis()\<close> inside each accepted press,
  and its value in the idle check.
\<close>

record inputs =
  rd0 :: bool
  rd1 :: bool
  rdSelect :: bool
  rdBack :: bool
  db0 :: bool
  db1 :: bool
  dbSelect :: bool
  dbBack :: bool
  ms0 :: "32 word"
  ms1 :: "32 word"
  msSelect :: "32 word"
  msBack :: "32 word"
  msLoop :: "32 word"

text \<open>The two rings drawn around the new circle: \<^verbatim>\<open>for (int r = 7; r < 11; r += 2)\<close>.\<close>

function ring_from :: "int \<Rightarrow> int \<Rightarrow> int \<Rightarrow> 16 word \<Rightarrow> event list" where
  "ring_from r x y color =
     (if r < 11 then [DrawCircle x y r color, Delay 8] @ ring_from (r + 2) x y color else [])"
  by pat_completeness auto
termination
  by (relation "measure (\<lambda>(r, x, y, color). nat (11 - r))") auto

declare ring_from.simps [simp del]

text \<open>
  The branch \<^verbatim>\<open>currentState == LOCKED && passIndex < PASS_LENGTH\<close>, which the four
  handlers repeat with their own symbol, LED colour and ring colour.
\<close>

definition enterSymbol :: "8 word \<Rightarrow> led_color \<Rightarrow> 16 word \<Rightarrow> device \<Rightarrow> device" where
  "enterSymbol symbol led ringColor s =
     (let s1 = s\<lparr>enteredPasscode := (enteredPasscode s)[unat (passIndex s) := symbol]\<rparr>;
          s2 = s1\<lparr>passIndex := passIndex s1 + 1\<rparr>;
          s3 = emit (setRGBLeds led) s2;
          spacing = 24;
          startX = (SCREEN_W - (PASS_LENGTH - 1) * spacing) div 2;
          x = startX + (uint (passIndex s3) - 1) * spacing;
          y = 138;
          s4 = emit (ring_from 7 x y ringColor) s3;
          s5 = drawPasscodeCircles s4
      in if uint (passIndex s5) \<ge> PASS_LENGTH then
           (let s6 = emit [Delay 150] s5
            in if checkPasscode s6 then
                 (let s7 = s6\<lparr>currentState := UNLOCKING\<rparr>;
                      s8 = showUnlockAnimation s7;
                      s9 = drawMenu s8
                  in s9\<lparr>currentState := MENU\<rparr>)
               else showLockedAnimation s6)
         else s5)"

text \<open>The LED colour of a menu entry; the \<^verbatim>\<open>switch\<close> has no default.\<close>

definition menuLeds :: "8 word \<Rightarrow> event list" where
  "menuLeds item =
     (if item = 0 then setRGBLeds (Color 150 50 200)
      else if item = 1 then setRGBLeds (Color 255 100 180)
      else if item = 2 then setRGBLeds (Color 0 100 255)
      else if item = 3 then setRGBLeds (Color 255 150 0)
      else [])"

text \<open>
  The body of each handler once its press is confirmed; \<open>now\<close> is what \<^verbatim>\<open>millis()\<close>
  returns there.
\<close>

definition press0 :: "(int \<Rightarrow> 16 word) \<Rightarrow> 32 word \<Rightarrow> device \<Rightarrow> device" where
  "press0 pic1 now s =
     (let s1 = s\<lparr>lastPressTime := now\<rparr>;
          s2 = emit buttonPressVibration s1
      in if currentState s2 = LOCKED \<and> uint (passIndex s2) < PASS_LENGTH then
           enterSymbol 0 (Color 0 100 255) ACCENT_BLUE s2
         else if currentState s2 = MENU then
           (let oldSelection = selectedMenuItem s2;
                s3 = s2\<lparr>selectedMenuItem :=
                          (if selectedMenuItem s2 = 0 then 3 else selectedMenuItem s2 - 1)\<rparr>;
                s4 = emit menuNavigationVibration s3;
                s5 = emit (menuLeds (selectedMenuItem s4)) s4;
                s6 = emit (drawMenuItem (uint oldSelection) False) s5
            in emit (drawMenuItem (uint (selectedMenuItem s6)) True) s6)
         else if currentState s2 = CONTENT then
           (if currentPage s2 > 0 then
              (let s3 = s2\<lparr>currentPage := currentPage s2 - 1\<rparr>
               in updatePageContent pic1 (uint (selectedMenuItem s3)) s3)
            else s2)
         else s2)"

definition press1 :: "(int \<Rightarrow> 16 word) \<Rightarrow> 32 word \<Rightarrow> device \<Rightarrow> device" where
  "press1 pic1 now s =
     (let s1 = s\<lparr>lastPressTime := now\<rparr>;
          s2 = emit buttonPressVibration s1
      in if currentState s2 = LOCKED \<and> uint (passIndex s2) < PASS_LENGTH then
           enterSymbol 1 (Color 150 50 200) ACCENT_PURPLE s2
         else if currentState s2 = MENU then
           (let oldSelection = selectedMenuItem s2;
                s3 = s2\<lparr>selectedMenuItem :=
                          word_of_int ((uint (selectedMenuItem s2) + 1) mod 4)\<rparr>;
                s4 = emit menuNavigationVibration s3;
                s5 = emit (menuLeds (selectedMenuItem s4)) s4;
                s6 = emit (drawMenuItem (uint oldSelection) False) s5
            in emit (drawMenuItem (uint (selectedMenuItem s6)) True) s6)
         else if currentState s2 = CONTENT then
           (if uint (currentPage s2) < uint (maxPages s2) - 1 then
              (let s3 = s2\<lparr>currentPage := currentPage s2 + 1\<rparr>
               in updatePageContent pic1 (uint (selectedMenuItem s3)) s3)
            else s2)
         else s2)"

definition pressSelect :: "(int \<Rightarrow> 16 word) \<Rightarrow> 32 word \<Rightarrow> device \<Rightarrow> device" where
  "pressSelect pic1 now s =
     (let s1 = s\<lparr>lastPressTime := now\<rparr>;
          s2 = emit buttonPressVibration s1
      in if currentState s2 = LOCKED \<and> uint (passIndex s2) < PASS_LENGTH then
           enterSymbol 2 (Color 255 100 180) ACCENT_PINK s2
         else if currentState s2 = MENU then
           (let s3 = showContent pic1 (uint (selectedMenuItem s2)) s2;
                s4 = s3\<lparr>currentState := CONTENT\<rparr>
            in emit (setRGBLeds (Color 50 50 50)) s4)
         else s2)"

definition pressBack :: "32 word \<Rightarrow> device \<Rightarrow> device" where
  "pressBack now s =
     (let s1 = s\<lparr>lastPressTime := now\<rparr>;
          s2 = emit buttonPressVibration s1
      in if currentState s2 = LOCKED \<and> uint (passIndex s2) < PASS_LENGTH then
           enterSymbol 3 (Color 255 150 0) ACCENT_ORANGE s2
         else if currentState s2 = CONTENT then
           (let s3 = drawMenu s2 in s3\<lparr>currentState := MENU\<rparr>)
         else s2)"

text \<open>
  One of the four edge detectors: on a falling edge wait \<open>DEBOUNCE\<close>, sample again and
  run the handler if the pin is still low. The result holds the sample that the final
  assignment stores as the pin's last level.
\<close>

definition debounced :: "bool \<Rightarrow> bool \<Rightarrow> bool \<Rightarrow> (device \<Rightarrow> device) \<Rightarrow> device \<Rightarrow> bool \<times> device" where
  "debounced sample previous resample handler s =
     (if sample = LOW \<and> previous = HIGH then
        (let s1 = emit [Delay DEBOUNCE] s
         in (resample, if resample = LOW then handler s1 else s1))
      else (sample, s))"

definition handleButtons :: "(int \<Rightarrow> 16 word) \<Rightarrow> inputs \<Rightarrow> device \<Rightarrow> device" where
  "handleButtons pic1 inp s =
     (let (currentButton0, sa) =
            debounced (rd0 inp) (lastButton0 s) (db0 inp) (press0 pic1 (ms0 inp)) s;
          (currentButton1, sb) =
            debounced (rd1 inp) (lastButton1 sa) (db1 inp) (press1 pic1 (ms1 inp)) sa;
          (currentButtonSelect, sc) =
            debounced (rdSelect inp) (lastButtonSelect sb) (dbSelect inp)
              (pressSelect pic1 (msSelect inp)) sb;
          (currentButtonBack, sd) =
            debounced (rdBack inp) (lastButtonBack sc) (dbBack inp) (pressBack (msBack inp)) sc
      in sd\<lparr>lastButton0 := currentButton0, lastButton1 := currentButton1,
             lastButtonSelect := currentButtonSelect, lastButtonBack := currentButtonBack\<rparr>)"

section \<open>Main loop\<close>

definition loop :: "(int \<Rightarrow> 16 word) \<Rightarrow> inputs \<Rightarrow> device \<Rightarrow> device" where
  "loop pic1 inp s =
     (let s1 = handleButtons pic1 inp s
      in if currentState s1 = LOCKED \<and> msLoop inp - lastPressTime s1 > TIMEOUT_MS
            \<and> passIndex s1 > 0 then
           (let s2 = s1\<lparr>passIndex := 0\<rparr>;
                s3 = s2\<lparr>enteredPasscode := clearPasscode_from 0 (enteredPasscode s2)\<rparr>
            in drawPasscodeCircles s3)
         else s1)"

section \<open>Presses as inputs\<close>

datatype button = Button0 | Button1 | ButtonSelect | ButtonBack

text \<open>The handler that a confirmed press of a button runs.\<close>

definition press :: "(int \<Rightarrow> 16 word) \<Rightarrow> button \<Rightarrow> 32 word \<Rightarrow> device \<Rightarrow> device" where
  "press pic1 b now s =
     (case b of
        Button0 \<Rightarrow> press0 pic1 now s
      | Button1 \<Rightarrow> press1 pic1 now s
      | ButtonSelect \<Rightarrow> pressSelect pic1 now s
      | ButtonBack \<Rightarrow> pressBack now s)"

text \<open>The passcode symbol that a button stands for.\<close>

definition symbolOf :: "button \<Rightarrow> 8 word" where
  "symbolOf b = (case b of Button0 \<Rightarrow> 0 | Button1 \<Rightarrow> 1 | ButtonSelect \<Rightarrow> 2 | ButtonBack \<Rightarrow> 3)"

text \<open>A sequence of confirmed presses, each with its reading of the clock.\<close>

fun presses :: "(int \<Rightarrow> 16 word) \<Rightarrow> (button \<times> 32 word) list \<Rightarrow> device \<Rightarrow> device" where
  "presses pic1 [] s = s"
| "presses pic1 ((b, now) # rest) s = presses pic1 rest (press pic1 b now s)"

text \<open>A pass of the loop in which no press is confirmed.\<close>

definition idle :: "inputs \<Rightarrow> device \<Rightarrow> bool" where
  "idle inp s =
     (\<not> (rd0 inp = LOW \<and> lastButton0 s = HIGH \<and> db0 inp = LOW)
      \<and> \<not> (rd1 inp = LOW \<and> lastButton1 s = HIGH \<and> db1 inp = LOW)
      \<and> \<not> (rdSelect inp = LOW \<and> lastButtonSelect s = HIGH \<and> dbSelect inp = LOW)
      \<and> \<not> (rdBack inp = LOW \<and> lastButtonBack s = HIGH \<and> dbBack inp = LOW))"

text \<open>The events that a step from \<open>s\<close> to \<open>s'\<close> added.\<close>

definition emitted :: "device \<Rightarrow> device \<Rightarrow> event list" where
  "emitted s s' = drop (length (trace s)) (trace s')"

text \<open>The events that reach the display.\<close>

fun is_display :: "event \<Rightarrow> bool" where
  "is_display (MotorWrite v) = False"
| "is_display (Delay n) = False"
| "is_display (SetPixelColor i c) = False"
| "is_display LedShow = False"
| "is_display e = True"

text \<open>The events that switch the vibration motor on.\<close>

fun is_haptic :: "event \<Rightarrow> bool" where
  "is_haptic (MotorWrite v) = v"
| "is_haptic e = False"

section \<open>The display\<close>

text \<open>
  Modelled from the spec: the display collaborator "accepts a rectangular pixel-write
  command (x, y, width, height, pixel stream)"; its driver is a library outside the
  sketch. \<^verbatim>\<open>setAddrWindow\<close> selects the rectangle and rewinds the write position, and
  each \<^verbatim>\<open>pushColor\<close> stores one pixel and advances row by row inside the rectangle,
  starting over at its top once it is full; into an empty rectangle nothing is stored.
  The shape and text primitives are not interpreted: a run that meets one has no result.
\<close>

record panel =
  wx :: int
  wy :: int
  ww :: int
  wh :: int
  cursor :: int
  fb :: "int \<times> int \<Rightarrow> 16 word"

fun display_step :: "event \<Rightarrow> panel \<Rightarrow> panel option" where
  "display_step (SetAddrWindow x y w h) d =
     Some (d\<lparr>wx := x, wy := y, ww := w, wh := h, cursor := 0\<rparr>)"
| "display_step (PushColor c) d =
     (if 0 < ww d \<and> 0 < wh d then
        Some (d\<lparr>fb := (fb d)((wx d + cursor d mod ww d,
                               wy d + (cursor d div ww d) mod wh d) := c),
                cursor := cursor d + 1\<rparr>)
      else Some d)"
| "display_step StartWrite d = Some d"
| "display_step EndWrite d = Some d"
| "display_step (MotorWrite v) d = Some d"
| "display_step (Delay n) d = Some d"
| "display_step (SetPixelColor i c) d = Some d"
| "display_step LedShow d = Some d"
| "display_step e d = None"

fun display_run :: "event list \<Rightarrow> panel \<Rightarrow> panel option" where
  "display_run [] d = Some d"
| "display_run (e # es) d =
     (case display_step e d of None \<Rightarrow> None | Some d' \<Rightarrow> display_run es d')"

section \<open>Sample inputs\<close>

definition blank :: "int \<Rightarrow> 16 word" where
  "blank i = 0"

text \<open>An image whose pixel is its index, so that every position is told apart.\<close>

definition ramp :: "int \<Rightarrow> 16 word" where
  "ramp i = word_of_int i"

definition booted :: device where
  "booted =
     \<lparr>currentState = LOCKED, sdCardDetected = False, enteredPasscode = [0, 0, 0, 0],
      passIndex = 0, lastPressTime = 0, lastButton0 = HIGH, lastButton1 = HIGH,
      lastButtonSelect = HIGH, lastButtonBack = HIGH, selectedMenuItem = 0,
      currentPage = 0, maxPages = 0, lastMemoryPage = 0, trace = []\<rparr>"

definition quiet :: inputs where
  "quiet =
     \<lparr>rd0 = HIGH, rd1 = HIGH, rdSelect = HIGH, rdBack = HIGH,
      db0 = HIGH, db1 = HIGH, dbSelect = HIGH, dbBack = HIGH,
      ms0 = 0, ms1 = 0, msSelect = 0, msBack = 0, msLoop = 0\<rparr>"

definition dark :: panel where
  "dark = \<lparr>wx = 0, wy = 0, ww = 0, wh = 0, cursor = 0, fb = (\<lambda>p. 0)\<rparr>"

text \<open>A panel that shows white everywhere, to tell what a routine leaves untouched.\<close>

definition snow :: panel where
  "snow = \<lparr>wx = 0, wy = 0, ww = 0, wh = 0, cursor = 0, fb = (\<lambda>p. 0xFFFF)\<rparr>"

definition menu_at_memories :: device where
  "menu_at_memories = booted\<lparr>currentState := MENU, passIndex := 4, selectedMenuItem := 1\<rparr>"

definition locked_three :: device where
  "locked_three = booted\<lparr>passIndex := 3\<rparr>"

definition locked_one :: device where
  "locked_one = booted\<lparr>passIndex := 1, enteredPasscode := [2, 0, 0, 0]\<rparr>"

definition content_first :: device where
  "content_first =
     booted\<lparr>currentState := CONTENT, passIndex := 4, selectedMenuItem := 1, maxPages := 3\<rparr>"

definition content_last :: device where
  "content_last = content_first\<lparr>currentPage := 2, lastMemoryPage := 2\<rparr>"

definition at_5000 :: inputs where
  "at_5000 = quiet\<lparr>msLoop := 5000\<rparr>"

definition at_5001 :: inputs where
  "at_5001 = quiet\<lparr>msLoop := 5001\<rparr>"

definition at_9000 :: inputs where
  "at_9000 = quiet\<lparr>msLoop := 9000\<rparr>"

section \<open>Reachable states\<close>

text \<open>The page count that the \<^verbatim>\<open>switch\<close> of \<^verbatim>\<open>showContent\<close> gives a menu entry.\<close>

definition pagesOf :: "8 word \<Rightarrow> 8 word" where
  "pagesOf item = (if item = 0 then 6 else if item = 1 then 3 else if item = 2 then 2 else 1)"

text \<open>
  What holds of the globals between two handlers: the attempt has its four slots and a
  cursor of at most 4, below 4 while locked; the selection is one of the four entries;
  and in a content screen the page is below the entry's page count, and in the Memories
  screen the page remembered for the slide is the page shown.
\<close>

definition consistent :: "device \<Rightarrow> bool" where
  "consistent s =
     (length (enteredPasscode s) = 4 \<and> uint (passIndex s) \<le> 4 \<and> selectedMenuItem s < 4
      \<and> (currentState s = LOCKED \<or> currentState s = MENU \<or> currentState s = CONTENT)
      \<and> (currentState s = LOCKED \<longrightarrow> uint (passIndex s) < 4)
      \<and> (currentState s = CONTENT \<longrightarrow>
           maxPages s = pagesOf (selectedMenuItem s) \<and> currentPage s < maxPages s
           \<and> (selectedMenuItem s = 1 \<longrightarrow> lastMemoryPage s = currentPage s)))"

text \<open>
  \<^verbatim>\<open>setup\<close> leaves the globals at their initial values, apart from the state, which is
  \<open>LOCKED\<close>, and the card status; from there on \<^verbatim>\<open>loop\<close> runs for ever, on whatever the
  pins and the clock provide.
\<close>

inductive reachable :: "(int \<Rightarrow> 16 word) \<Rightarrow> device \<Rightarrow> bool" for pic1 where
  after_setup: "reachable pic1 (booted\<lparr>sdCardDetected := detected, trace := shown\<rparr>)"
| after_loop: "reachable pic1 s \<Longrightarrow> reachable pic1 (loop pic1 inp s)"

section \<open>Facts about the passcode\<close>

lemma checkPasscode_from_slots:
  "checkPasscode_from 0 [a, b, c, d] = (a = 0 \<and> b = 0 \<and> c = 0 \<and> d = 0)"
  by (simp add: checkPasscode_from.simps [of 0] checkPasscode_from.simps [of 1]
      checkPasscode_from.simps [of 2] checkPasscode_from.simps [of 3]
      checkPasscode_from.simps [of 4] CORRECT_PASSCODE_def)

lemma clearPasscode_from_slots: "clearPasscode_from 0 [a, b, c, d] = [0, 0, 0, 0]"
  by (simp add: clearPasscode_from.simps [of 0] clearPasscode_from.simps [of 1]
      clearPasscode_from.simps [of 2] clearPasscode_from.simps [of 3]
      clearPasscode_from.simps [of 4])

lemma four_slots: "length xs = 4 \<Longrightarrow> \<exists>a b c d. xs = [a, b, c, d]"
  by (cases xs; simp; cases "tl xs"; simp; cases "tl (tl xs)"; simp;
      cases "tl (tl (tl xs))"; simp)

lemma clearPasscode_from_four: "length xs = 4 \<Longrightarrow> clearPasscode_from 0 xs = [0, 0, 0, 0]"
  using four_slots [of xs] clearPasscode_from_slots by auto

lemma checkPasscode_four:
  "length (enteredPasscode s) = 4 \<Longrightarrow>
   checkPasscode s = (enteredPasscode s = CORRECT_PASSCODE)"
proof -
  assume "length (enteredPasscode s) = 4"
  then obtain a b c d where e: "enteredPasscode s = [a, b, c, d]"
    using four_slots by blast
  show ?thesis
    unfolding checkPasscode_def e checkPasscode_from_slots
    by (auto simp: CORRECT_PASSCODE_def)
qed

text \<open>
  C1. For every stored attempt of four slots, \<open>checkPasscode\<close> answers true exactly when
  the attempt equals the reference sequence \<open>CORRECT_PASSCODE = [0, 0, 0, 0]\<close>, slot by
  slot.
\<close>

theorem checkPasscode_iff_reference:
  "length (enteredPasscode s) = 4 \<Longrightarrow>
   checkPasscode s = (enteredPasscode s = CORRECT_PASSCODE)"
  by (rule checkPasscode_four)

theorem checkPasscode_iff_reference_witness:
  "length (enteredPasscode booted) = 4
   \<and> checkPasscode booted = (enteredPasscode booted = CORRECT_PASSCODE)
   \<and> length (enteredPasscode (booted\<lparr>enteredPasscode := [0, 0, 1, 0]\<rparr>)) = 4
   \<and> checkPasscode (booted\<lparr>enteredPasscode := [0, 0, 1, 0]\<rparr>)
       = (enteredPasscode (booted\<lparr>enteredPasscode := [0, 0, 1, 0]\<rparr>) = CORRECT_PASSCODE)"
  using checkPasscode_iff_reference [of booted]
    checkPasscode_iff_reference [of "booted\<lparr>enteredPasscode := [0, 0, 1, 0]\<rparr>"]
  by (simp add: booted_def)

section \<open>Facts about symbol entry and the idle pass\<close>

lemma word8_less4: "(i :: 8 word) < 4 \<Longrightarrow> i = 0 \<or> i = 1 \<or> i = 2 \<or> i = 3"
proof -
  assume "i < 4"
  then have "unat i < 4" by (simp add: word_less_nat_alt)
  then have d: "unat i = 0 \<or> unat i = 1 \<or> unat i = 2 \<or> unat i = 3" by arith
  have r: "\<And>n. unat i = n \<Longrightarrow> i = of_nat n" by auto
  from d r [of 0] r [of 1] r [of 2] r [of 3] show ?thesis by fastforce
qed

lemma cursor_below3: "uint (p :: 8 word) < 3 \<Longrightarrow> p = 0 \<or> p = 1 \<or> p = 2"
proof -
  assume a: "uint p < 3"
  then have "p < 4" by (simp add: word_less_def)
  from word8_less4 [OF this] a show ?thesis by auto
qed

lemma press_enters:
  "currentState s = LOCKED \<Longrightarrow> uint (passIndex s) < 4 \<Longrightarrow>
   \<exists>led ringColor.
     press pic1 b now s
       = enterSymbol (symbolOf b) led ringColor
           (emit buttonPressVibration (s\<lparr>lastPressTime := now\<rparr>))"
  by (cases b)
     (auto simp: press_def press0_def press1_def pressSelect_def pressBack_def symbolOf_def
        Let_def emit_def)

lemma enterSymbol_early:
  assumes "uint (passIndex s) < 3"
  shows "currentState (enterSymbol symbol led ringColor s) = currentState s
       \<and> passIndex (enterSymbol symbol led ringColor s) = passIndex s + 1
       \<and> enteredPasscode (enterSymbol symbol led ringColor s)
           = (enteredPasscode s)[unat (passIndex s) := symbol]"
  using cursor_below3 [OF assms]
  by (auto simp: enterSymbol_def Let_def emit_def drawPasscodeCircles_def)

lemma enterSymbol_match:
  assumes "passIndex s = 3" and "length (enteredPasscode s) = 4"
    and "(enteredPasscode s)[3 := symbol] = CORRECT_PASSCODE"
  shows "currentState (enterSymbol symbol led ringColor s) = MENU
       \<and> passIndex (enterSymbol symbol led ringColor s) = 4
       \<and> enteredPasscode (enterSymbol symbol led ringColor s) = [0, 0, 0, 0]"
  using assms
  by (simp add: enterSymbol_def Let_def emit_def drawPasscodeCircles_def checkPasscode_four
      showUnlockAnimation_def drawMenu_def CORRECT_PASSCODE_def)

lemma enterSymbol_mismatch:
  assumes "passIndex s = 3" and "length (enteredPasscode s) = 4"
    and "(enteredPasscode s)[3 := symbol] \<noteq> CORRECT_PASSCODE"
  shows "currentState (enterSymbol symbol led ringColor s) = currentState s
       \<and> passIndex (enterSymbol symbol led ringColor s) = 0
       \<and> enteredPasscode (enterSymbol symbol led ringColor s) = [0, 0, 0, 0]"
  using assms
  by (simp add: enterSymbol_def Let_def emit_def drawPasscodeCircles_def checkPasscode_four
      showLockedAnimation_def drawLockScreen_def clearPasscode_from_four)

lemma debounced_rejected:
  "\<not> (sample = LOW \<and> previous = HIGH \<and> resample = LOW) \<Longrightarrow>
   \<exists>es. snd (debounced sample previous resample handler s) = emit es s"
proof (cases "sample = LOW \<and> previous = HIGH")
  case True
  moreover assume "\<not> (sample = LOW \<and> previous = HIGH \<and> resample = LOW)"
  ultimately have "snd (debounced sample previous resample handler s) = emit [Delay DEBOUNCE] s"
    by (simp add: debounced_def Let_def)
  then show ?thesis by blast
next
  case False
  then have "snd (debounced sample previous resample handler s) = emit [] s"
    by (auto simp: debounced_def emit_def)
  then show ?thesis by blast
qed

lemma handleButtons_idle:
  assumes "idle inp s"
  shows "\<exists>es b0 b1 bs bb.
           handleButtons pic1 inp s
             = (emit es s)\<lparr>lastButton0 := b0, lastButton1 := b1,
                            lastButtonSelect := bs, lastButtonBack := bb\<rparr>"
proof -
  define r0 where "r0 = debounced (rd0 inp) (lastButton0 s) (db0 inp) (press0 pic1 (ms0 inp)) s"
  define r1 where
    "r1 = debounced (rd1 inp) (lastButton1 (snd r0)) (db1 inp) (press1 pic1 (ms1 inp)) (snd r0)"
  define r2 where
    "r2 = debounced (rdSelect inp) (lastButtonSelect (snd r1)) (dbSelect inp)
            (pressSelect pic1 (msSelect inp)) (snd r1)"
  define r3 where
    "r3 = debounced (rdBack inp) (lastButtonBack (snd r2)) (dbBack inp)
            (pressBack (msBack inp)) (snd r2)"
  have i0: "\<not> (rd0 inp = LOW \<and> lastButton0 s = HIGH \<and> db0 inp = LOW)"
    and i1: "\<not> (rd1 inp = LOW \<and> lastButton1 s = HIGH \<and> db1 inp = LOW)"
    and i2: "\<not> (rdSelect inp = LOW \<and> lastButtonSelect s = HIGH \<and> dbSelect inp = LOW)"
    and i3: "\<not> (rdBack inp = LOW \<and> lastButtonBack s = HIGH \<and> dbBack inp = LOW)"
    using assms by (simp_all add: idle_def)
  obtain e0 where s0: "snd r0 = emit e0 s"
    unfolding r0_def using debounced_rejected [OF i0] by blast
  have l1: "lastButton1 (snd r0) = lastButton1 s" by (simp add: s0 emit_def)
  obtain e1 where s1: "snd r1 = emit e1 (snd r0)"
    unfolding r1_def l1 using debounced_rejected [OF i1] by blast
  have l2: "lastButtonSelect (snd r1) = lastButtonSelect s" by (simp add: s1 s0 emit_def)
  obtain e2 where s2: "snd r2 = emit e2 (snd r1)"
    unfolding r2_def l2 using debounced_rejected [OF i2] by blast
  have l3: "lastButtonBack (snd r2) = lastButtonBack s" by (simp add: s2 s1 s0 emit_def)
  obtain e3 where s3: "snd r3 = emit e3 (snd r2)"
    unfolding r3_def l3 using debounced_rejected [OF i3] by blast
  have e: "snd r3 = emit (e0 @ e1 @ e2 @ e3) s"
    by (simp add: s3 s2 s1 s0 emit_def)
  have h: "handleButtons pic1 inp s
     = (snd r3)\<lparr>lastButton0 := fst r0, lastButton1 := fst r1,
                  lastButtonSelect := fst r2, lastButtonBack := fst r3\<rparr>"
    by (simp only: handleButtons_def Let_def split_def r0_def r1_def r2_def r3_def)
  show ?thesis unfolding h e by (intro exI) (rule refl)
qed

lemma loop_idle:
  assumes "idle inp s" and "length (enteredPasscode s) = 4"
  shows "currentState (loop pic1 inp s) = currentState s
       \<and> (if currentState s = LOCKED \<and> msLoop inp - lastPressTime s > TIMEOUT_MS
              \<and> passIndex s > 0
           then passIndex (loop pic1 inp s) = 0 \<and> enteredPasscode (loop pic1 inp s) = [0, 0, 0, 0]
           else passIndex (loop pic1 inp s) = passIndex s
              \<and> enteredPasscode (loop pic1 inp s) = enteredPasscode s)"
proof -
  obtain es b0 b1 bs bb where h: "handleButtons pic1 inp s
             = (emit es s)\<lparr>lastButton0 := b0, lastButton1 := b1,
                            lastButtonSelect := bs, lastButtonBack := bb\<rparr>"
    using handleButtons_idle [OF assms(1)] by blast
  show ?thesis
    using assms(2)
    by (simp add: loop_def h Let_def drawPasscodeCircles_def emit_def clearPasscode_from_four)
qed

section \<open>Facts about the menu\<close>

lemma press1_menu:
  "currentState s = MENU \<Longrightarrow>
   press1 pic1 now s =
     s\<lparr>lastPressTime := now,
       selectedMenuItem := word_of_int ((uint (selectedMenuItem s) + 1) mod 4),
       trace := trace s @ buttonPressVibration @ menuNavigationVibration
                @ menuLeds (word_of_int ((uint (selectedMenuItem s) + 1) mod 4))
                @ drawMenuItem (uint (selectedMenuItem s)) False
                @ drawMenuItem
                    (uint (word_of_int ((uint (selectedMenuItem s) + 1) mod 4) :: 8 word)) True\<rparr>"
  by (simp add: press1_def emit_def Let_def)

lemma press0_menu:
  "currentState s = MENU \<Longrightarrow>
   press0 pic1 now s =
     s\<lparr>lastPressTime := now,
       selectedMenuItem := (if selectedMenuItem s = 0 then 3 else selectedMenuItem s - 1),
       trace := trace s @ buttonPressVibration @ menuNavigationVibration
                @ menuLeds (if selectedMenuItem s = 0 then 3 else selectedMenuItem s - 1)
                @ drawMenuItem (uint (selectedMenuItem s)) False
                @ drawMenuItem
                    (uint (if selectedMenuItem s = 0 then 3 else selectedMenuItem s - 1)) True\<rparr>"
  by (simp add: press0_def emit_def Let_def)

lemma next_menu_item:
  "currentState s = MENU \<Longrightarrow> selectedMenuItem s < 4 \<Longrightarrow>
   currentState (press1 pic1 t s) = MENU \<and> selectedMenuItem (press1 pic1 t s) < 4
   \<and> uint (selectedMenuItem (press1 pic1 t s)) = (uint (selectedMenuItem s) + 1) mod 4"
  apply (simp add: press1_menu)
  apply (drule word8_less4)
  apply auto
  done

lemma previous_menu_item:
  "currentState s = MENU \<Longrightarrow> selectedMenuItem s < 4 \<Longrightarrow>
   currentState (press0 pic1 t s) = MENU \<and> selectedMenuItem (press0 pic1 t s) < 4
   \<and> uint (selectedMenuItem (press0 pic1 t s)) = (uint (selectedMenuItem s) - 1 + 4) mod 4"
  apply (simp add: press0_menu)
  apply (drule word8_less4)
  apply auto
  done

lemma four_values: "0 \<le> k \<Longrightarrow> k < 4 \<Longrightarrow> k = 0 \<or> k = 1 \<or> k = 2 \<or> k = (3::int)"
  by arith

lemma four_next:
  "0 \<le> k \<Longrightarrow> k < 4 \<Longrightarrow> ((((k + 1) mod 4 + 1) mod 4 + 1) mod 4 + 1) mod 4 = (k::int)"
  by (drule (1) four_values) (elim disjE, simp_all)

lemma four_previous:
  "0 \<le> k \<Longrightarrow> k < 4 \<Longrightarrow>
   ((((k - 1 + 4) mod 4 - 1 + 4) mod 4 - 1 + 4) mod 4 - 1 + 4) mod 4 = (k::int)"
  by (drule (1) four_values) (elim disjE, simp_all)

text \<open>
  C4. In the Menu state, from every selection \<open>i\<close> in \<open>[0, 4)\<close>, one press of Down (next)
  gives \<open>(i + 1) mod 4\<close> and one press of Up (previous) gives \<open>(i - 1 + 4) mod 4\<close>; four
  presses of the same button in a row return to the selection they started from.
\<close>

theorem menu_selection_cycles:
  assumes "currentState s = MENU" and "selectedMenuItem s < 4"
  shows "uint (selectedMenuItem (press1 pic1 t s)) = (uint (selectedMenuItem s) + 1) mod 4
       \<and> uint (selectedMenuItem (press0 pic1 t s)) = (uint (selectedMenuItem s) - 1 + 4) mod 4
       \<and> selectedMenuItem (press1 pic1 t4 (press1 pic1 t3 (press1 pic1 t2 (press1 pic1 t1 s))))
           = selectedMenuItem s
       \<and> selectedMenuItem (press0 pic1 t4 (press0 pic1 t3 (press0 pic1 t2 (press0 pic1 t1 s))))
           = selectedMenuItem s"
proof -
  have k: "0 \<le> uint (selectedMenuItem s)" "uint (selectedMenuItem s) < 4"
    using assms(2) by (simp_all add: word_less_def)
  note n = next_menu_item
  note p = previous_menu_item
  have forwards:
    "selectedMenuItem (press1 pic1 t4 (press1 pic1 t3 (press1 pic1 t2 (press1 pic1 t1 s))))
       = selectedMenuItem s"
  proof -
    let ?a = "press1 pic1 t1 s"
    let ?b = "press1 pic1 t2 ?a"
    let ?c = "press1 pic1 t3 ?b"
    let ?d = "press1 pic1 t4 ?c"
    note a = n [OF assms, of pic1 t1]
    note b = n [of ?a pic1 t2, OF a [THEN conjunct1] a [THEN conjunct2, THEN conjunct1]]
    note c = n [of ?b pic1 t3, OF b [THEN conjunct1] b [THEN conjunct2, THEN conjunct1]]
    note d = n [of ?c pic1 t4, OF c [THEN conjunct1] c [THEN conjunct2, THEN conjunct1]]
    have "uint (selectedMenuItem ?d)
            = ((((uint (selectedMenuItem s) + 1) mod 4 + 1) mod 4 + 1) mod 4 + 1) mod 4"
      by (simp only: a [THEN conjunct2, THEN conjunct2] b [THEN conjunct2, THEN conjunct2]
          c [THEN conjunct2, THEN conjunct2] d [THEN conjunct2, THEN conjunct2])
    also have "\<dots> = uint (selectedMenuItem s)"
      by (rule four_next [OF k])
    finally show ?thesis by (simp only: word_uint_eq_iff)
  qed
  have backwards:
    "selectedMenuItem (press0 pic1 t4 (press0 pic1 t3 (press0 pic1 t2 (press0 pic1 t1 s))))
       = selectedMenuItem s"
  proof -
    let ?a = "press0 pic1 t1 s"
    let ?b = "press0 pic1 t2 ?a"
    let ?c = "press0 pic1 t3 ?b"
    let ?d = "press0 pic1 t4 ?c"
    note a = p [OF assms, of pic1 t1]
    note b = p [of ?a pic1 t2, OF a [THEN conjunct1] a [THEN conjunct2, THEN conjunct1]]
    note c = p [of ?b pic1 t3, OF b [THEN conjunct1] b [THEN conjunct2, THEN conjunct1]]
    note d = p [of ?c pic1 t4, OF c [THEN conjunct1] c [THEN conjunct2, THEN conjunct1]]
    have "uint (selectedMenuItem ?d)
            = ((((uint (selectedMenuItem s) - 1 + 4) mod 4 - 1 + 4) mod 4 - 1 + 4) mod 4
                - 1 + 4) mod 4"
      by (simp only: a [THEN conjunct2, THEN conjunct2] b [THEN conjunct2, THEN conjunct2]
          c [THEN conjunct2, THEN conjunct2] d [THEN conjunct2, THEN conjunct2])
    also have "\<dots> = uint (selectedMenuItem s)"
      by (rule four_previous [OF k])
    finally show ?thesis by (simp only: word_uint_eq_iff)
  qed
  from n [OF assms, of pic1 t] p [OF assms, of pic1 t] forwards backwards
  show ?thesis by blast
qed

theorem menu_selection_cycles_witness:
  "currentState menu_at_memories = MENU \<and> selectedMenuItem menu_at_memories < 4
   \<and> uint (selectedMenuItem (press1 blank 7 menu_at_memories)) = 2
   \<and> uint (selectedMenuItem (press0 blank 7 menu_at_memories)) = 0
   \<and> selectedMenuItem (press1 blank 4 (press1 blank 3 (press1 blank 2
        (press1 blank 1 menu_at_memories)))) = 1
   \<and> selectedMenuItem (press0 blank 4 (press0 blank 3 (press0 blank 2
        (press0 blank 1 menu_at_memories)))) = 1"
proof -
  have h: "currentState menu_at_memories = MENU" "selectedMenuItem menu_at_memories < 4"
    and v: "selectedMenuItem menu_at_memories = 1"
    by (simp_all add: menu_at_memories_def booted_def)
  show ?thesis
    using h menu_selection_cycles [OF h, of blank 7 4 3 2 1] by (simp add: v)
qed

section \<open>The attempt after a reset and after an unlock\<close>

lemma press_fourth_match:
  assumes "currentState s = LOCKED" and "passIndex s = 3" and "length (enteredPasscode s) = 4"
    and "(enteredPasscode s)[3 := symbolOf b] = CORRECT_PASSCODE"
  shows "currentState (press img b now s) = MENU \<and> passIndex (press img b now s) = 4
       \<and> enteredPasscode (press img b now s) = [0, 0, 0, 0]"
proof -
  let ?s = "emit buttonPressVibration (s\<lparr>lastPressTime := now\<rparr>)"
  have c: "uint (passIndex s) < 4" by (simp add: assms(2))
  obtain led ringColor where
    p: "press img b now s = enterSymbol (symbolOf b) led ringColor ?s"
    using press_enters [OF assms(1) c] by blast
  have "passIndex ?s = 3" "length (enteredPasscode ?s) = 4"
    "(enteredPasscode ?s)[3 := symbolOf b] = CORRECT_PASSCODE"
    using assms by (simp_all add: emit_def)
  from enterSymbol_match [OF this] show ?thesis unfolding p .
qed

lemma press_fourth_mismatch:
  assumes "currentState s = LOCKED" and "passIndex s = 3" and "length (enteredPasscode s) = 4"
    and "(enteredPasscode s)[3 := symbolOf b] \<noteq> CORRECT_PASSCODE"
  shows "currentState (press img b now s) = LOCKED \<and> passIndex (press img b now s) = 0
       \<and> enteredPasscode (press img b now s) = [0, 0, 0, 0]"
proof -
  let ?s = "emit buttonPressVibration (s\<lparr>lastPressTime := now\<rparr>)"
  have c: "uint (passIndex s) < 4" by (simp add: assms(2))
  obtain led ringColor where
    p: "press img b now s = enterSymbol (symbolOf b) led ringColor ?s"
    using press_enters [OF assms(1) c] by blast
  have h: "passIndex ?s = 3" "length (enteredPasscode ?s) = 4"
    "(enteredPasscode ?s)[3 := symbolOf b] \<noteq> CORRECT_PASSCODE"
    using assms by (simp_all add: emit_def)
  have "currentState ?s = LOCKED" using assms(1) by (simp add: emit_def)
  with enterSymbol_mismatch [OF h] show ?thesis unfolding p by simp
qed

lemma press_early:
  assumes "currentState s = LOCKED" and "uint (passIndex s) < 3"
  shows "currentState (press img b now s) = LOCKED
       \<and> passIndex (press img b now s) = passIndex s + 1
       \<and> enteredPasscode (press img b now s)
           = (enteredPasscode s)[unat (passIndex s) := symbolOf b]"
proof -
  let ?s = "emit buttonPressVibration (s\<lparr>lastPressTime := now\<rparr>)"
  have c: "uint (passIndex s) < 4" using assms(2) by simp
  obtain led ringColor where
    p: "press img b now s = enterSymbol (symbolOf b) led ringColor ?s"
    using press_enters [OF assms(1) c] by blast
  have h: "uint (passIndex ?s) < 3" using assms(2) by (simp add: emit_def)
  have f: "currentState ?s = LOCKED" "passIndex ?s = passIndex s"
    "enteredPasscode ?s = enteredPasscode s"
    using assms(1) by (simp_all add: emit_def)
  from enterSymbol_early [OF h, of "symbolOf b" led ringColor] show ?thesis
    unfolding p f .
qed

text \<open>
  C2 (as amended). While locked, the attempt is emptied, with \<open>passIndex\<close> 0 and every slot
  0, by the idle timeout and by a fourth symbol that fails the match. A fourth symbol that
  matches moves to the menu and does not empty the attempt: \<open>passIndex\<close> stays 4 and the
  slots hold the reference sequence, which is all zeros.
\<close>

theorem attempt_reset_cases:
  assumes "currentState s = LOCKED" and "length (enteredPasscode s) = 4"
  shows "(idle inp s \<and> passIndex s > 0 \<and> msLoop inp - lastPressTime s > TIMEOUT_MS \<longrightarrow>
            currentState (loop img inp s) = LOCKED \<and> passIndex (loop img inp s) = 0
            \<and> enteredPasscode (loop img inp s) = [0, 0, 0, 0])
       \<and> (passIndex s = 3 \<and> (enteredPasscode s)[3 := symbolOf b] \<noteq> CORRECT_PASSCODE \<longrightarrow>
            currentState (press img b now s) = LOCKED \<and> passIndex (press img b now s) = 0
            \<and> enteredPasscode (press img b now s) = [0, 0, 0, 0])
       \<and> (passIndex s = 3 \<and> (enteredPasscode s)[3 := symbolOf b] = CORRECT_PASSCODE \<longrightarrow>
            currentState (press img b now s) = MENU \<and> passIndex (press img b now s) = 4
            \<and> enteredPasscode (press img b now s) = [0, 0, 0, 0])"
proof (intro conjI impI)
  assume h: "idle inp s \<and> passIndex s > 0 \<and> msLoop inp - lastPressTime s > TIMEOUT_MS"
  from h have i: "idle inp s" by blast
  from loop_idle [OF i assms(2), of img] h assms(1)
  show "currentState (loop img inp s) = LOCKED" "passIndex (loop img inp s) = 0"
    "enteredPasscode (loop img inp s) = [0, 0, 0, 0]"
    by simp_all
next
  assume h: "passIndex s = 3 \<and> (enteredPasscode s)[3 := symbolOf b] \<noteq> CORRECT_PASSCODE"
  from press_fourth_mismatch [OF assms(1) _ assms(2), of b img now] h
  show "currentState (press img b now s) = LOCKED" "passIndex (press img b now s) = 0"
    "enteredPasscode (press img b now s) = [0, 0, 0, 0]"
    by blast+
next
  assume h: "passIndex s = 3 \<and> (enteredPasscode s)[3 := symbolOf b] = CORRECT_PASSCODE"
  from press_fourth_match [OF assms(1) _ assms(2), of b img now] h
  show "currentState (press img b now s) = MENU" "passIndex (press img b now s) = 4"
    "enteredPasscode (press img b now s) = [0, 0, 0, 0]"
    by blast+
qed

theorem attempt_reset_cases_witness:
  "currentState locked_one = LOCKED \<and> length (enteredPasscode locked_one) = 4
   \<and> idle at_5001 locked_one \<and> passIndex locked_one > 0
   \<and> msLoop at_5001 - lastPressTime locked_one > TIMEOUT_MS
   \<and> passIndex (loop blank at_5001 locked_one) = 0
   \<and> enteredPasscode (loop blank at_5001 locked_one) = [0, 0, 0, 0]
   \<and> currentState locked_three = LOCKED \<and> length (enteredPasscode locked_three) = 4
   \<and> passIndex locked_three = 3
   \<and> (enteredPasscode locked_three)[3 := symbolOf Button1] \<noteq> CORRECT_PASSCODE
   \<and> currentState (press blank Button1 7 locked_three) = LOCKED
   \<and> passIndex (press blank Button1 7 locked_three) = 0
   \<and> (enteredPasscode locked_three)[3 := symbolOf Button0] = CORRECT_PASSCODE
   \<and> currentState (press blank Button0 7 locked_three) = MENU
   \<and> passIndex (press blank Button0 7 locked_three) = 4"
proof -
  have a: "currentState locked_one = LOCKED" "length (enteredPasscode locked_one) = 4"
    and a': "idle at_5001 locked_one \<and> passIndex locked_one > 0
      \<and> msLoop at_5001 - lastPressTime locked_one > TIMEOUT_MS"
    by (simp_all add: locked_one_def booted_def at_5001_def quiet_def idle_def)
  have b: "currentState locked_three = LOCKED" "length (enteredPasscode locked_three) = 4"
    and b1: "passIndex locked_three = 3
      \<and> (enteredPasscode locked_three)[3 := symbolOf Button1] \<noteq> CORRECT_PASSCODE"
    and b0: "passIndex locked_three = 3
      \<and> (enteredPasscode locked_three)[3 := symbolOf Button0] = CORRECT_PASSCODE"
    by (simp_all add: locked_three_def booted_def symbolOf_def CORRECT_PASSCODE_def)
  note t1 = attempt_reset_cases [OF a, of at_5001 blank Button0 0, THEN conjunct1, rule_format, OF a']
  note t2 = attempt_reset_cases [OF b, of quiet blank Button1 7,
      THEN conjunct2, THEN conjunct1, rule_format, OF b1]
  note t3 = attempt_reset_cases [OF b, of quiet blank Button0 7,
      THEN conjunct2, THEN conjunct2, rule_format, OF b0]
  from a a' b b1 b0 t1 t2 t3 show ?thesis by blast
qed

text \<open>
  C2 as stated fails for the successful unlock: after the fourth correct symbol the device
  is in the menu with \<open>passIndex\<close> still 4.
\<close>

theorem unlock_keeps_cursor_counterexample:
  "currentState locked_three = LOCKED \<and> passIndex locked_three = 3
   \<and> enteredPasscode locked_three = [0, 0, 0, 0]
   \<and> currentState (press blank Button0 7 locked_three) = MENU
   \<and> passIndex (press blank Button0 7 locked_three) \<noteq> 0"
proof -
  have h: "currentState locked_three = LOCKED" "passIndex locked_three = 3"
    "length (enteredPasscode locked_three) = 4"
    "(enteredPasscode locked_three)[3 := symbolOf Button0] = CORRECT_PASSCODE"
    by (simp_all add: locked_three_def booted_def symbolOf_def CORRECT_PASSCODE_def)
  have e: "enteredPasscode locked_three = [0, 0, 0, 0]"
    by (simp add: locked_three_def booted_def)
  from press_fourth_match [OF h, of blank 7] h e show ?thesis by simp
qed

section \<open>Idle timeout\<close>

text \<open>
  C5 (as amended). In a pass of the loop in which no press is confirmed and \<open>passIndex\<close> is
  above 0: if the device is locked and the clock is more than \<open>TIMEOUT_MS\<close> past the last
  press (a strict comparison in unsigned 32-bit arithmetic), the pass sets \<open>passIndex\<close> to 0
  and every slot to 0; otherwise, so at exactly \<open>TIMEOUT_MS\<close> or in any other state, it
  leaves \<open>passIndex\<close> and the slots as they are.
\<close>

theorem idle_timeout_reset:
  assumes "idle inp s" and "passIndex s > 0" and "length (enteredPasscode s) = 4"
  shows "(currentState s = LOCKED \<and> msLoop inp - lastPressTime s > TIMEOUT_MS \<longrightarrow>
            passIndex (loop img inp s) = 0 \<and> enteredPasscode (loop img inp s) = [0, 0, 0, 0])
       \<and> (\<not> (currentState s = LOCKED \<and> msLoop inp - lastPressTime s > TIMEOUT_MS) \<longrightarrow>
            passIndex (loop img inp s) = passIndex s
            \<and> enteredPasscode (loop img inp s) = enteredPasscode s)"
  using loop_idle [OF assms(1) assms(3), of img] assms(2) by auto

theorem idle_timeout_reset_witness:
  "idle at_5001 locked_one \<and> passIndex locked_one > 0 \<and> length (enteredPasscode locked_one) = 4
   \<and> currentState locked_one = LOCKED \<and> msLoop at_5001 - lastPressTime locked_one > TIMEOUT_MS
   \<and> passIndex (loop blank at_5001 locked_one) = 0
   \<and> enteredPasscode (loop blank at_5001 locked_one) = [0, 0, 0, 0]
   \<and> idle at_5000 locked_one
   \<and> \<not> (currentState locked_one = LOCKED \<and> msLoop at_5000 - lastPressTime locked_one > TIMEOUT_MS)
   \<and> passIndex (loop blank at_5000 locked_one) = passIndex locked_one
   \<and> enteredPasscode (loop blank at_5000 locked_one) = enteredPasscode locked_one"
proof -
  have a: "idle at_5001 locked_one" "passIndex locked_one > 0"
    "length (enteredPasscode locked_one) = 4"
    and a': "currentState locked_one = LOCKED
      \<and> msLoop at_5001 - lastPressTime locked_one > TIMEOUT_MS"
    and b: "idle at_5000 locked_one"
    and b': "\<not> (currentState locked_one = LOCKED
      \<and> msLoop at_5000 - lastPressTime locked_one > TIMEOUT_MS)"
    by (simp_all add: locked_one_def booted_def at_5001_def at_5000_def quiet_def idle_def)
  note t1 = idle_timeout_reset [OF a, of blank, THEN conjunct1, rule_format, OF a']
  note t2 = idle_timeout_reset [OF b a(2) a(3), of blank, THEN conjunct2, rule_format, OF b']
  from a a' b b' t1 t2 show ?thesis by blast
qed

text \<open>
  C5 as stated fails at the boundary and outside the locked state: with exactly
  \<open>TIMEOUT_MS\<close> elapsed the locked device keeps its attempt, and in the menu, where
  \<open>passIndex\<close> is 4 after the unlock, no amount of idle time clears it.
\<close>

theorem idle_timeout_counterexample:
  "idle at_5000 locked_one \<and> passIndex locked_one > 0
   \<and> msLoop at_5000 - lastPressTime locked_one \<ge> TIMEOUT_MS
   \<and> passIndex (loop blank at_5000 locked_one) \<noteq> 0
   \<and> idle at_9000 menu_at_memories \<and> passIndex menu_at_memories > 0
   \<and> msLoop at_9000 - lastPressTime menu_at_memories \<ge> TIMEOUT_MS
   \<and> passIndex (loop blank at_9000 menu_at_memories) \<noteq> 0"
proof -
  have a: "idle at_5000 locked_one" "length (enteredPasscode locked_one) = 4"
    and b: "idle at_9000 menu_at_memories" "length (enteredPasscode menu_at_memories) = 4"
    by (simp_all add: locked_one_def menu_at_memories_def booted_def at_9000_def at_5000_def
        quiet_def idle_def)
  from loop_idle [OF a, of blank] loop_idle [OF b, of blank] a b show ?thesis
    by (simp add: locked_one_def menu_at_memories_def booted_def at_9000_def at_5000_def
        quiet_def)
qed

section \<open>The match check and the cursor\<close>

lemma checkPasscode_cleared:
  "enteredPasscode s = [0, 0, 0, 0] \<Longrightarrow> checkPasscode s"
  by (simp add: checkPasscode_four CORRECT_PASSCODE_def)

lemma symbolOf_zero: "(symbolOf b = 0) = (b = Button0)"
  by (cases b) (simp_all add: symbolOf_def)

lemma four_presses_unlock:
  assumes "currentState s = LOCKED" and "passIndex s = 0" and "length (enteredPasscode s) = 4"
  shows "(currentState (press img b4 t4 (press img b3 t3 (press img b2 t2 (press img b1 t1 s))))
            = MENU)
         = (b1 = Button0 \<and> b2 = Button0 \<and> b3 = Button0 \<and> b4 = Button0)"
proof -
  define a where "a = press img b1 t1 s"
  define b where "b = press img b2 t2 a"
  define c where "c = press img b3 t3 b"
  obtain w x y z where e: "enteredPasscode s = [w, x, y, z]"
    using four_slots [OF assms(3)] by blast
  have a: "currentState a = LOCKED" "passIndex a = 1" "enteredPasscode a = [symbolOf b1, x, y, z]"
    using press_early [OF assms(1), of img b1 t1] assms(2) e by (simp_all add: a_def)
  have b: "currentState b = LOCKED" "passIndex b = 2"
    "enteredPasscode b = [symbolOf b1, symbolOf b2, y, z]"
    using press_early [OF a(1), of img b2 t2] a(2,3) by (simp_all add: b_def)
  have c: "currentState c = LOCKED" "passIndex c = 3"
    "enteredPasscode c = [symbolOf b1, symbolOf b2, symbolOf b3, z]"
    using press_early [OF b(1), of img b3 t3] b(2,3) by (simp_all add: c_def)
  have l: "length (enteredPasscode c) = 4" by (simp add: c(3))
  have u: "(enteredPasscode c)[3 := symbolOf b4] = [symbolOf b1, symbolOf b2, symbolOf b3, symbolOf b4]"
    by (simp add: c(3))
  have m: "((enteredPasscode c)[3 := symbolOf b4] = CORRECT_PASSCODE)
           = (b1 = Button0 \<and> b2 = Button0 \<and> b3 = Button0 \<and> b4 = Button0)"
    unfolding u by (simp add: CORRECT_PASSCODE_def symbolOf_zero)
  have "(currentState (press img b4 t4 c) = MENU)
         = (b1 = Button0 \<and> b2 = Button0 \<and> b3 = Button0 \<and> b4 = Button0)"
  proof (cases "(enteredPasscode c)[3 := symbolOf b4] = CORRECT_PASSCODE")
    case True
    from press_fourth_match [OF c(1) c(2) l True, of img t4] True m show ?thesis by simp
  next
    case False
    from press_fourth_mismatch [OF c(1) c(2) l False, of img t4] False m show ?thesis by simp
  qed
  then show ?thesis by (simp only: a_def b_def c_def)
qed

text \<open>
  C9. \<open>checkPasscode\<close> reads the four slots and never the cursor. A reset leaves the slots
  equal to the reference, so the check holds right after the idle timeout and right after a
  failed attempt. The handlers consult it only once the cursor has reached 4: while fewer
  than three symbols are stored, a press keeps the device locked and stores one symbol,
  whatever the check would say; and starting from an empty cursor with any stale slots,
  four presses unlock exactly when all four are button 0.
\<close>

theorem check_ignores_cursor:
  assumes "currentState s = LOCKED" and "length (enteredPasscode s) = 4"
  shows "checkPasscode (s\<lparr>passIndex := k\<rparr>) = checkPasscode s
       \<and> (idle inp s \<and> passIndex s > 0 \<and> msLoop inp - lastPressTime s > TIMEOUT_MS \<longrightarrow>
            checkPasscode (loop img inp s))
       \<and> (passIndex s = 3 \<and> (enteredPasscode s)[3 := symbolOf b] \<noteq> CORRECT_PASSCODE \<longrightarrow>
            checkPasscode (press img b now s))
       \<and> (uint (passIndex s) < 3 \<longrightarrow>
            currentState (press img b now s) = LOCKED
            \<and> passIndex (press img b now s) = passIndex s + 1
            \<and> enteredPasscode (press img b now s)
                = (enteredPasscode s)[unat (passIndex s) := symbolOf b])
       \<and> (passIndex s = 0 \<longrightarrow>
            (currentState (press img b4 t4 (press img b3 t3 (press img b2 t2
               (press img b1 t1 s)))) = MENU)
            = (b1 = Button0 \<and> b2 = Button0 \<and> b3 = Button0 \<and> b4 = Button0))"
proof (intro conjI impI)
  show "checkPasscode (s\<lparr>passIndex := k\<rparr>) = checkPasscode s"
    by (simp add: checkPasscode_def)
next
  assume h: "idle inp s \<and> passIndex s > 0 \<and> msLoop inp - lastPressTime s > TIMEOUT_MS"
  then have i: "idle inp s" by blast
  from loop_idle [OF i assms(2), of img] h assms(1)
  have "enteredPasscode (loop img inp s) = [0, 0, 0, 0]" by simp
  then show "checkPasscode (loop img inp s)" by (rule checkPasscode_cleared)
next
  assume h: "passIndex s = 3 \<and> (enteredPasscode s)[3 := symbolOf b] \<noteq> CORRECT_PASSCODE"
  from press_fourth_mismatch [OF assms(1) _ assms(2), of b img now] h
  have "enteredPasscode (press img b now s) = [0, 0, 0, 0]" by blast
  then show "checkPasscode (press img b now s)" by (rule checkPasscode_cleared)
next
  assume h: "uint (passIndex s) < 3"
  from press_early [OF assms(1) h, of img b now]
  show "currentState (press img b now s) = LOCKED"
    "passIndex (press img b now s) = passIndex s + 1"
    "enteredPasscode (press img b now s) = (enteredPasscode s)[unat (passIndex s) := symbolOf b]"
    by blast+
next
  assume h: "passIndex s = 0"
  from four_presses_unlock [OF assms(1) h assms(2)]
  show "(currentState (press img b4 t4 (press img b3 t3 (press img b2 t2
               (press img b1 t1 s)))) = MENU)
            = (b1 = Button0 \<and> b2 = Button0 \<and> b3 = Button0 \<and> b4 = Button0)" .
qed

theorem check_ignores_cursor_witness:
  "currentState locked_one = LOCKED \<and> length (enteredPasscode locked_one) = 4
   \<and> idle at_5001 locked_one \<and> passIndex locked_one > 0
   \<and> msLoop at_5001 - lastPressTime locked_one > TIMEOUT_MS
   \<and> checkPasscode (loop blank at_5001 locked_one)
   \<and> uint (passIndex locked_one) < 3
   \<and> currentState (press blank Button1 7 locked_one) = LOCKED
   \<and> currentState locked_three = LOCKED \<and> length (enteredPasscode locked_three) = 4
   \<and> passIndex locked_three = 3
   \<and> (enteredPasscode locked_three)[3 := symbolOf Button1] \<noteq> CORRECT_PASSCODE
   \<and> checkPasscode (press blank Button1 7 locked_three)
   \<and> currentState booted = LOCKED \<and> length (enteredPasscode booted) = 4
   \<and> passIndex booted = 0
   \<and> currentState (press blank Button0 4 (press blank Button0 3 (press blank Button0 2
         (press blank Button0 1 booted)))) = MENU"
proof -
  have a: "currentState locked_one = LOCKED" "length (enteredPasscode locked_one) = 4"
    and a2: "idle at_5001 locked_one \<and> passIndex locked_one > 0
      \<and> msLoop at_5001 - lastPressTime locked_one > TIMEOUT_MS"
    and a4: "uint (passIndex locked_one) < 3"
    by (simp_all add: locked_one_def booted_def at_5001_def quiet_def idle_def)
  have b: "currentState locked_three = LOCKED" "length (enteredPasscode locked_three) = 4"
    and b3: "passIndex locked_three = 3
      \<and> (enteredPasscode locked_three)[3 := symbolOf Button1] \<noteq> CORRECT_PASSCODE"
    by (simp_all add: locked_three_def booted_def symbolOf_def CORRECT_PASSCODE_def)
  have c: "currentState booted = LOCKED" "length (enteredPasscode booted) = 4"
    and c5: "passIndex booted = 0"
    by (simp_all add: booted_def)
  note t2 = check_ignores_cursor [OF a, of 0 at_5001 blank Button1 7 Button0 4 Button0 3 Button0 2
      Button0 1, THEN conjunct2, THEN conjunct1, rule_format, OF a2]
  note t4 = check_ignores_cursor [OF a, of 0 at_5001 blank Button1 7 Button0 4 Button0 3 Button0 2
      Button0 1, THEN conjunct2, THEN conjunct2, THEN conjunct2, THEN conjunct1, rule_format,
      OF a4]
  note t3 = check_ignores_cursor [OF b, of 0 quiet blank Button1 7 Button0 4 Button0 3 Button0 2
      Button0 1, THEN conjunct2, THEN conjunct2, THEN conjunct1, rule_format, OF b3]
  note t5 = check_ignores_cursor [OF c, of 0 quiet blank Button1 7 Button0 4 Button0 3 Button0 2
      Button0 1, THEN conjunct2, THEN conjunct2, THEN conjunct2, THEN conjunct2, rule_format,
      OF c5]
  from a a2 a4 b b3 c c5 t2 t3 t4 t5 show ?thesis by blast
qed

section \<open>Paging through a content screen\<close>

lemma emitted_append: "trace s' = trace s @ es \<Longrightarrow> emitted s s' = es"
  by (simp add: emitted_def)

lemma updatePageContent_fields:
  "currentState (updatePageContent img ci s) = currentState s
   \<and> currentPage (updatePageContent img ci s) = currentPage s
   \<and> maxPages (updatePageContent img ci s) = maxPages s
   \<and> selectedMenuItem (updatePageContent img ci s) = selectedMenuItem s"
  by (simp add: updatePageContent_def drawPageIndicator_def drawAboutContent_def emit_def Let_def)

lemma press0_first_page:
  "currentState s = CONTENT \<Longrightarrow> currentPage s = 0 \<Longrightarrow>
   press0 img now s = s\<lparr>lastPressTime := now, trace := trace s @ buttonPressVibration\<rparr>"
  by (simp add: press0_def emit_def Let_def)

lemma press1_last_page:
  "currentState s = CONTENT \<Longrightarrow> \<not> uint (currentPage s) < uint (maxPages s) - 1 \<Longrightarrow>
   press1 img now s = s\<lparr>lastPressTime := now, trace := trace s @ buttonPressVibration\<rparr>"
  by (simp add: press1_def emit_def Let_def)

lemma press0_content:
  "currentState s = CONTENT \<Longrightarrow>
   currentState (press0 img now s) = CONTENT
   \<and> maxPages (press0 img now s) = maxPages s
   \<and> selectedMenuItem (press0 img now s) = selectedMenuItem s
   \<and> currentPage (press0 img now s) = (if currentPage s > 0 then currentPage s - 1 else currentPage s)"
  by (simp add: press0_def emit_def Let_def updatePageContent_fields)

lemma press1_content:
  "currentState s = CONTENT \<Longrightarrow>
   currentState (press1 img now s) = CONTENT
   \<and> maxPages (press1 img now s) = maxPages s
   \<and> selectedMenuItem (press1 img now s) = selectedMenuItem s
   \<and> currentPage (press1 img now s)
       = (if uint (currentPage s) < uint (maxPages s) - 1 then currentPage s + 1 else currentPage s)"
  by (simp add: press1_def emit_def Let_def updatePageContent_fields)

lemma page_down_in_range:
  assumes "(p :: 8 word) < m" and "0 < p"
  shows "p - 1 < m"
proof -
  have "uint (1 :: 8 word) \<le> uint p"
    using assms(2) by (simp add: word_less_def)
  then have "uint (p - 1) = uint p - uint (1 :: 8 word)"
    using uint_sub_lem [of 1 p] by blast
  then show ?thesis using assms(1) by (simp add: word_less_def)
qed

lemma page_up_in_range:
  assumes "uint (p :: 8 word) < uint (m :: 8 word) - 1"
  shows "p + 1 < m"
proof -
  have "uint (p + 1) \<le> uint p + uint (1 :: 8 word)" by (rule uint_add_le)
  then show ?thesis using assms by (simp add: word_less_def)
qed

lemma press_page_keeps_range:
  assumes "currentState s = CONTENT" and "currentPage s < maxPages s"
    and "b = Button0 \<or> b = Button1"
  shows "currentState (press img b now s) = CONTENT
       \<and> maxPages (press img b now s) = maxPages s
       \<and> selectedMenuItem (press img b now s) = selectedMenuItem s
       \<and> currentPage (press img b now s) < maxPages s"
proof -
  from assms(3) show ?thesis
  proof
    assume b: "b = Button0"
    from press0_content [OF assms(1), of img now] assms(2) page_down_in_range [OF assms(2)]
    show ?thesis by (simp add: press_def b)
  next
    assume b: "b = Button1"
    from press1_content [OF assms(1), of img now] assms(2)
      page_up_in_range [of "currentPage s" "maxPages s"]
    show ?thesis by (simp add: press_def b)
  qed
qed

lemma presses_keep_range:
  "currentState s = CONTENT \<Longrightarrow> currentPage s < maxPages s \<Longrightarrow>
   \<forall>(b, now) \<in> set bs. b = Button0 \<or> b = Button1 \<Longrightarrow>
   currentState (presses img bs s) = CONTENT
   \<and> maxPages (presses img bs s) = maxPages s
   \<and> selectedMenuItem (presses img bs s) = selectedMenuItem s
   \<and> currentPage (presses img bs s) < maxPages s"
proof (induction bs arbitrary: s)
  case Nil
  then show ?case by simp
next
  case (Cons x bs)
  obtain b now where x: "x = (b, now)" by (cases x)
  have b: "b = Button0 \<or> b = Button1" using Cons.prems(3) x by simp
  note step = press_page_keeps_range [OF Cons.prems(1) Cons.prems(2) b, of img now]
  have rest: "\<forall>(b, now) \<in> set bs. b = Button0 \<or> b = Button1" using Cons.prems(3) by simp
  have r: "currentPage (press img b now s) < maxPages (press img b now s)"
    using step by simp
  from Cons.IH [OF step [THEN conjunct1] r rest] step
  show ?case by (simp add: x)
qed

lemma no_display_in_buttonPressVibration: "filter is_display buttonPressVibration = []"
  by (simp add: buttonPressVibration_def vibrate_def)

section \<open>Consistency of the reachable states\<close>

lemma consistent_emit: "consistent (emit es s) = consistent s"
  by (simp add: consistent_def emit_def)

lemma consistent_trace: "consistent (s\<lparr>trace := t\<rparr>) = consistent s"
  by (simp add: consistent_def)

lemma consistent_lastPressTime: "consistent (s\<lparr>lastPressTime := t\<rparr>) = consistent s"
  by (simp add: consistent_def)

lemma enterSymbol_selection:
  "selectedMenuItem (enterSymbol symbol led ringColor s) = selectedMenuItem s"
  by (simp add: enterSymbol_def Let_def emit_def drawPasscodeCircles_def
      showUnlockAnimation_def drawMenu_def showLockedAnimation_def drawLockScreen_def)

lemma consistent_enterSymbol:
  assumes "consistent s" and "currentState s = LOCKED"
  shows "consistent (enterSymbol symbol led ringColor s)"
proof -
  have l: "length (enteredPasscode s) = 4" and p: "uint (passIndex s) < 4"
    and m: "selectedMenuItem s < 4"
    using assms by (simp_all add: consistent_def)
  show ?thesis
  proof (cases "uint (passIndex s) < 3")
    case True
    from enterSymbol_early [OF True, of symbol led ringColor] cursor_below3 [OF True] l m assms(2)
    show ?thesis by (auto simp: consistent_def enterSymbol_selection)
  next
    case False
    with p have "uint (passIndex s) = uint (3 :: 8 word)" by simp
    then have t: "passIndex s = 3" by (simp only: word_uint_eq_iff)
    show ?thesis
    proof (cases "(enteredPasscode s)[3 := symbol] = CORRECT_PASSCODE")
      case True
      from enterSymbol_match [OF t l True, of led ringColor]
      have f: "currentState (enterSymbol symbol led ringColor s) = MENU"
        "passIndex (enterSymbol symbol led ringColor s) = 4"
        "enteredPasscode (enterSymbol symbol led ringColor s) = [0, 0, 0, 0]"
        by blast+
      with f m show ?thesis by (simp add: consistent_def enterSymbol_selection)
    next
      case False
      from enterSymbol_mismatch [OF t l False, of led ringColor] assms(2)
      have f: "currentState (enterSymbol symbol led ringColor s) = LOCKED"
        "passIndex (enterSymbol symbol led ringColor s) = 0"
        "enteredPasscode (enterSymbol symbol led ringColor s) = [0, 0, 0, 0]"
        by simp_all
      with f m show ?thesis by (simp add: consistent_def enterSymbol_selection)
    qed
  qed
qed

lemma updatePageContent_lastMemoryPage:
  "lastMemoryPage (updatePageContent img ci s)
     = (if ci = 1 then currentPage s else lastMemoryPage s)"
  by (simp add: updatePageContent_def drawPageIndicator_def drawAboutContent_def emit_def Let_def)

lemma uint_selection_one: "(uint (i :: 8 word) = 1) = (i = 1)"
  by (simp add: word_uint_eq_iff)

lemma consistent_press0:
  assumes "consistent s"
  shows "consistent (press0 img now s)"
proof -
  define s2 where "s2 = emit buttonPressVibration (s\<lparr>lastPressTime := now\<rparr>)"
  have c2: "consistent s2" using assms by (simp add: s2_def consistent_emit consistent_lastPressTime)
  have st: "currentState s2 = currentState s" by (simp add: s2_def emit_def)
  consider "currentState s = LOCKED" | "currentState s = MENU" | "currentState s = CONTENT"
    using assms by (auto simp: consistent_def)
  then show ?thesis
  proof cases
    case 1
    then have p: "uint (passIndex s2) < 4" using c2 st by (simp add: consistent_def)
    have "press0 img now s = enterSymbol 0 (Color 0 100 255) ACCENT_BLUE s2"
      using 1 p by (simp add: press0_def Let_def s2_def emit_def)
    then show ?thesis using consistent_enterSymbol [OF c2] 1 st by simp
  next
    case 2
    from previous_menu_item [OF 2, of img now] assms
    have "selectedMenuItem (press0 img now s) < 4" by (simp add: consistent_def)
    then show ?thesis using assms 2 by (simp add: press0_menu consistent_def)
  next
    case 3
    from press0_content [OF 3, of img now] assms 3
    have f: "currentState (press0 img now s) = CONTENT"
      "maxPages (press0 img now s) = maxPages s"
      "selectedMenuItem (press0 img now s) = selectedMenuItem s"
      "currentPage (press0 img now s)
         = (if currentPage s > 0 then currentPage s - 1 else currentPage s)"
      by blast+
    have r: "currentPage (press0 img now s) < maxPages s"
      using assms 3 page_down_in_range [of "currentPage s" "maxPages s"]
      by (auto simp: f consistent_def)
    have m: "selectedMenuItem s = 1 \<longrightarrow>
        lastMemoryPage (press0 img now s) = currentPage (press0 img now s)"
      using assms 3
      by (simp add: press0_def Let_def emit_def updatePageContent_lastMemoryPage
          updatePageContent_fields consistent_def uint_selection_one)
    have k: "length (enteredPasscode (press0 img now s)) = 4"
      "uint (passIndex (press0 img now s)) \<le> 4"
      using assms 3
      by (simp_all add: press0_def Let_def emit_def updatePageContent_def drawPageIndicator_def
          drawAboutContent_def consistent_def)
    show ?thesis using f r m k assms 3 by (simp add: consistent_def)
  qed
qed

lemma consistent_press1:
  assumes "consistent s"
  shows "consistent (press1 img now s)"
proof -
  define s2 where "s2 = emit buttonPressVibration (s\<lparr>lastPressTime := now\<rparr>)"
  have c2: "consistent s2" using assms by (simp add: s2_def consistent_emit consistent_lastPressTime)
  have st: "currentState s2 = currentState s" by (simp add: s2_def emit_def)
  consider "currentState s = LOCKED" | "currentState s = MENU" | "currentState s = CONTENT"
    using assms by (auto simp: consistent_def)
  then show ?thesis
  proof cases
    case 1
    then have p: "uint (passIndex s2) < 4" using c2 st by (simp add: consistent_def)
    have "press1 img now s = enterSymbol 1 (Color 150 50 200) ACCENT_PURPLE s2"
      using 1 p by (simp add: press1_def Let_def s2_def emit_def)
    then show ?thesis using consistent_enterSymbol [OF c2] 1 st by simp
  next
    case 2
    from next_menu_item [OF 2, of img now] assms
    have "selectedMenuItem (press1 img now s) < 4" by (simp add: consistent_def)
    then show ?thesis using assms 2 by (simp add: press1_menu consistent_def)
  next
    case 3
    from press1_content [OF 3, of img now] assms 3
    have f: "currentState (press1 img now s) = CONTENT"
      "maxPages (press1 img now s) = maxPages s"
      "selectedMenuItem (press1 img now s) = selectedMenuItem s"
      "currentPage (press1 img now s)
         = (if uint (currentPage s) < uint (maxPages s) - 1 then currentPage s + 1
            else currentPage s)"
      by blast+
    have r: "currentPage (press1 img now s) < maxPages s"
      using assms 3 page_up_in_range [of "currentPage s" "maxPages s"]
      by (auto simp: f consistent_def)
    have m: "selectedMenuItem s = 1 \<longrightarrow>
        lastMemoryPage (press1 img now s) = currentPage (press1 img now s)"
      using assms 3
      by (simp add: press1_def Let_def emit_def updatePageContent_lastMemoryPage
          updatePageContent_fields consistent_def uint_selection_one)
    have k: "length (enteredPasscode (press1 img now s)) = 4"
      "uint (passIndex (press1 img now s)) \<le> 4"
      using assms 3
      by (simp_all add: press1_def Let_def emit_def updatePageContent_def drawPageIndicator_def
          drawAboutContent_def consistent_def)
    show ?thesis using f r m k assms 3 by (simp add: consistent_def)
  qed
qed

lemma showContent_entry:
  assumes "item < 4"
  shows "maxPages (showContent img (uint item) s) = pagesOf item
       \<and> currentPage (showContent img (uint item) s) = 0
       \<and> lastMemoryPage (showContent img (uint item) s) = 0
       \<and> currentState (showContent img (uint item) s) = currentState s
       \<and> selectedMenuItem (showContent img (uint item) s) = selectedMenuItem s
       \<and> enteredPasscode (showContent img (uint item) s) = enteredPasscode s
       \<and> passIndex (showContent img (uint item) s) = passIndex s"
  using word8_less4 [OF assms]
  by (elim disjE)
     (simp_all add: showContent_def pagesOf_def Let_def emit_def drawPageIndicator_def
        drawAboutContent_def)

lemma pagesOf_positive: "item < 4 \<Longrightarrow> 0 < pagesOf item"
  by (drule word8_less4) (auto simp: pagesOf_def)

lemma consistent_pressSelect:
  assumes "consistent s"
  shows "consistent (pressSelect img now s)"
proof -
  define s2 where "s2 = emit buttonPressVibration (s\<lparr>lastPressTime := now\<rparr>)"
  have c2: "consistent s2" using assms by (simp add: s2_def consistent_emit consistent_lastPressTime)
  have st: "currentState s2 = currentState s" by (simp add: s2_def emit_def)
  have m: "selectedMenuItem s2 < 4" using c2 by (simp add: consistent_def)
  consider "currentState s = LOCKED" | "currentState s = MENU" | "currentState s = CONTENT"
    using assms by (auto simp: consistent_def)
  then show ?thesis
  proof cases
    case 1
    then have p: "uint (passIndex s2) < 4" using c2 st by (simp add: consistent_def)
    have "pressSelect img now s = enterSymbol 2 (Color 255 100 180) ACCENT_PINK s2"
      using 1 p by (simp add: pressSelect_def Let_def s2_def emit_def)
    then show ?thesis using consistent_enterSymbol [OF c2] 1 st by simp
  next
    case 2
    define t where "t = showContent img (uint (selectedMenuItem s2)) s2"
    have e: "pressSelect img now s = emit (setRGBLeds (Color 50 50 50)) (t\<lparr>currentState := CONTENT\<rparr>)"
      using 2 by (simp add: pressSelect_def Let_def s2_def emit_def t_def)
    from showContent_entry [OF m, of img s2, folded t_def]
    have f: "maxPages t = pagesOf (selectedMenuItem s2)" "currentPage t = 0"
      "lastMemoryPage t = 0" "selectedMenuItem t = selectedMenuItem s2"
      "enteredPasscode t = enteredPasscode s2" "passIndex t = passIndex s2"
      by blast+
    show ?thesis
      unfolding e consistent_emit
      using c2 pagesOf_positive [OF m] by (simp add: consistent_def f)
  next
    case 3
    then have "pressSelect img now s = s2"
      by (simp add: pressSelect_def Let_def s2_def emit_def)
    with c2 show ?thesis by simp
  qed
qed

lemma consistent_pressBack:
  assumes "consistent s"
  shows "consistent (pressBack now s)"
proof -
  define s2 where "s2 = emit buttonPressVibration (s\<lparr>lastPressTime := now\<rparr>)"
  have c2: "consistent s2" using assms by (simp add: s2_def consistent_emit consistent_lastPressTime)
  have st: "currentState s2 = currentState s" by (simp add: s2_def emit_def)
  consider "currentState s = LOCKED" | "currentState s = MENU" | "currentState s = CONTENT"
    using assms by (auto simp: consistent_def)
  then show ?thesis
  proof cases
    case 1
    then have p: "uint (passIndex s2) < 4" using c2 st by (simp add: consistent_def)
    have "pressBack now s = enterSymbol 3 (Color 255 150 0) ACCENT_ORANGE s2"
      using 1 p by (simp add: pressBack_def Let_def s2_def emit_def)
    then show ?thesis using consistent_enterSymbol [OF c2] 1 st by simp
  next
    case 2
    then have "pressBack now s = s2"
      by (simp add: pressBack_def Let_def s2_def emit_def)
    with c2 show ?thesis by simp
  next
    case 3
    then have "pressBack now s = (drawMenu s2)\<lparr>currentState := MENU\<rparr>"
      by (simp add: pressBack_def Let_def s2_def emit_def)
    then show ?thesis using c2 by (simp add: consistent_def drawMenu_def emit_def)
  qed
qed

lemma consistent_debounced:
  assumes "consistent s" and "\<And>s. consistent s \<Longrightarrow> consistent (handler s)"
  shows "consistent (snd (debounced sample previous resample handler s))"
  using assms by (simp add: debounced_def Let_def consistent_emit)

lemma consistent_lastButtons:
  "consistent (s\<lparr>lastButton0 := a, lastButton1 := b, lastButtonSelect := c, lastButtonBack := d\<rparr>)
     = consistent s"
  by (simp add: consistent_def)

lemma consistent_handleButtons:
  assumes "consistent s"
  shows "consistent (handleButtons img inp s)"
proof -
  define r0 where "r0 = debounced (rd0 inp) (lastButton0 s) (db0 inp) (press0 img (ms0 inp)) s"
  define r1 where
    "r1 = debounced (rd1 inp) (lastButton1 (snd r0)) (db1 inp) (press1 img (ms1 inp)) (snd r0)"
  define r2 where
    "r2 = debounced (rdSelect inp) (lastButtonSelect (snd r1)) (dbSelect inp)
            (pressSelect img (msSelect inp)) (snd r1)"
  define r3 where
    "r3 = debounced (rdBack inp) (lastButtonBack (snd r2)) (dbBack inp)
            (pressBack (msBack inp)) (snd r2)"
  have c0: "consistent (snd r0)"
    unfolding r0_def using assms consistent_press0 by (rule consistent_debounced)
  have c1: "consistent (snd r1)"
    unfolding r1_def using c0 consistent_press1 by (rule consistent_debounced)
  have c2: "consistent (snd r2)"
    unfolding r2_def using c1 consistent_pressSelect by (rule consistent_debounced)
  have c3: "consistent (snd r3)"
    unfolding r3_def using c2 consistent_pressBack by (rule consistent_debounced)
  have h: "handleButtons img inp s
     = (snd r3)\<lparr>lastButton0 := fst r0, lastButton1 := fst r1,
                  lastButtonSelect := fst r2, lastButtonBack := fst r3\<rparr>"
    by (simp only: handleButtons_def Let_def split_def r0_def r1_def r2_def r3_def)
  show ?thesis unfolding h consistent_lastButtons by (rule c3)
qed

lemma consistent_loop:
  assumes "consistent s"
  shows "consistent (loop img inp s)"
proof -
  note c = consistent_handleButtons [OF assms, of img inp]
  have l: "length (enteredPasscode (handleButtons img inp s)) = 4"
    using c by (simp add: consistent_def)
  show ?thesis
    using c
    by (simp add: loop_def Let_def drawPasscodeCircles_def consistent_emit
        clearPasscode_from_four [OF l])
       (simp add: consistent_def)
qed

text \<open>
  Every state that the device can be in between two passes of the loop is consistent. So
  the ranges that the properties of the page cursor, of the menu selection and of the
  slide direction start from hold wherever the firmware can actually be.
\<close>

lemma reachable_consistent: "reachable img s \<Longrightarrow> consistent s"
proof (induction rule: reachable.induct)
  case (after_setup detected shown)
  show ?case by (simp add: consistent_def booted_def)
next
  case (after_loop s inp)
  from after_loop(2) show ?case by (rule consistent_loop)
qed

section \<open>The page cursor\<close>

text \<open>
  C3. In a content state of a consistent device, and so in every content state that can
  be reached, \<open>maxPages\<close> is the page count of the selected entry and \<open>currentPage\<close> is
  inside \<open>[0, maxPages)\<close>; every sequence of presses of Up (previous) and Down (next) keeps
  the state, the selection and \<open>maxPages\<close>, and keeps \<open>currentPage\<close> inside that range. A
  previous at page 0 and a next at the last page leave \<open>currentPage\<close> as it is and send
  nothing to the display.
\<close>

theorem page_cursor_in_range:
  assumes "consistent s" and "currentState s = CONTENT"
    and "\<forall>(b, now) \<in> set bs. b = Button0 \<or> b = Button1"
  shows "maxPages s = pagesOf (selectedMenuItem s)
       \<and> 0 \<le> uint (currentPage s) \<and> currentPage s < maxPages s
       \<and> currentState (presses img bs s) = CONTENT
       \<and> maxPages (presses img bs s) = maxPages s
       \<and> selectedMenuItem (presses img bs s) = selectedMenuItem s
       \<and> 0 \<le> uint (currentPage (presses img bs s))
       \<and> currentPage (presses img bs s) < maxPages s
       \<and> (currentPage s = 0 \<longrightarrow>
            currentPage (press img Button0 t s) = currentPage s
            \<and> filter is_display (emitted s (press img Button0 t s)) = [])
       \<and> (uint (currentPage s) = uint (maxPages s) - 1 \<longrightarrow>
            currentPage (press img Button1 t s) = currentPage s
            \<and> filter is_display (emitted s (press img Button1 t s)) = [])"
proof (intro conjI impI)
  from assms(1) assms(2) show m: "maxPages s = pagesOf (selectedMenuItem s)"
    and p: "currentPage s < maxPages s"
    by (auto simp: consistent_def)
  note r = presses_keep_range [OF assms(2) p assms(3), of img]
  from r show "currentState (presses img bs s) = CONTENT" by blast
  from r show "maxPages (presses img bs s) = maxPages s" by blast
  from r show "selectedMenuItem (presses img bs s) = selectedMenuItem s" by blast
  from r show "currentPage (presses img bs s) < maxPages s" by blast
  show "0 \<le> uint (currentPage s)" by simp
  show "0 \<le> uint (currentPage (presses img bs s))" by simp
next
  assume z: "currentPage s = 0"
  note e = press0_first_page [OF assms(2) z, of img t]
  show "currentPage (press img Button0 t s) = currentPage s"
    by (simp add: press_def e)
  have "emitted s (press img Button0 t s) = buttonPressVibration"
    by (rule emitted_append) (simp add: press_def e)
  then show "filter is_display (emitted s (press img Button0 t s)) = []"
    by (simp only: no_display_in_buttonPressVibration)
next
  assume l: "uint (currentPage s) = uint (maxPages s) - 1"
  then have n: "\<not> uint (currentPage s) < uint (maxPages s) - 1" by simp
  note e = press1_last_page [OF assms(2) n, of img t]
  show "currentPage (press img Button1 t s) = currentPage s"
    by (simp add: press_def e)
  have "emitted s (press img Button1 t s) = buttonPressVibration"
    by (rule emitted_append) (simp add: press_def e)
  then show "filter is_display (emitted s (press img Button1 t s)) = []"
    by (simp only: no_display_in_buttonPressVibration)
qed

theorem page_cursor_in_range_witness:
  "consistent content_first \<and> currentState content_first = CONTENT
   \<and> maxPages content_first = pagesOf (selectedMenuItem content_first)
   \<and> currentPage content_first < maxPages content_first
   \<and> currentState (presses blank [(Button1, 1), (Button1, 2), (Button1, 3), (Button0, 4)]
         content_first) = CONTENT
   \<and> currentPage (presses blank [(Button1, 1), (Button1, 2), (Button1, 3), (Button0, 4)]
         content_first) < 3
   \<and> currentPage content_first = 0
   \<and> currentPage (press blank Button0 5 content_first) = 0
   \<and> filter is_display (emitted content_first (press blank Button0 5 content_first)) = []
   \<and> consistent content_last \<and> currentState content_last = CONTENT
   \<and> uint (currentPage content_last) = uint (maxPages content_last) - 1
   \<and> currentPage (press blank Button1 5 content_last) = 2
   \<and> filter is_display (emitted content_last (press blank Button1 5 content_last)) = []"
proof -
  let ?bs = "[(Button1, 1), (Button1, 2), (Button1, 3), (Button0, 4)] :: (button \<times> 32 word) list"
  have a: "consistent content_first" "currentState content_first = CONTENT"
    "\<forall>(b, now) \<in> set ?bs. b = Button0 \<or> b = Button1"
    and a0: "currentPage content_first = 0" and am: "maxPages content_first = 3"
    by (simp_all add: content_first_def booted_def consistent_def pagesOf_def)
  have b: "consistent content_last" "currentState content_last = CONTENT"
    and bl: "uint (currentPage content_last) = uint (maxPages content_last) - 1"
    and bp: "currentPage content_last = 2"
    by (simp_all add: content_last_def content_first_def booted_def consistent_def pagesOf_def)
  note t = page_cursor_in_range [OF a, of blank 5]
  note t1 = t [THEN conjunct1]
  note t3 = t [THEN conjunct2, THEN conjunct2, THEN conjunct1]
  note t4 = t [THEN conjunct2, THEN conjunct2, THEN conjunct2, THEN conjunct1]
  note t7 = t [THEN conjunct2, THEN conjunct2, THEN conjunct2, THEN conjunct2, THEN conjunct2,
      THEN conjunct2, THEN conjunct2]
  note t8 = t7 [THEN conjunct1]
  note t9 = t7 [THEN conjunct2, THEN conjunct1, rule_format, OF a0]
  note u = page_cursor_in_range [OF b a(3), of blank 5]
  note u10 = u [THEN conjunct2, THEN conjunct2, THEN conjunct2, THEN conjunct2, THEN conjunct2,
      THEN conjunct2, THEN conjunct2, THEN conjunct2, THEN conjunct2, rule_format, OF bl]
  have c1: "currentPage (presses blank ?bs content_first) < 3"
    using t8 by (simp only: am)
  have c2: "currentPage (press blank Button0 5 content_first) = 0"
    using t9 [THEN conjunct1] by (simp only: a0)
  have c3: "currentPage (press blank Button1 5 content_last) = 2"
    using u10 [THEN conjunct1] by (simp only: bp)
  show ?thesis
    by (intro conjI a(1) a(2) t1 t3 t4 c1 a0 c2 t9 [THEN conjunct2] b bl c3
        u10 [THEN conjunct2])
qed

section \<open>A press at a page boundary\<close>

text \<open>
  C6 (as amended). In the content state a previous-page press at page 0, and a next-page
  press at the last page, change no navigation state and draw nothing; but the press is
  still acknowledged: the motor runs for the 30 ms of the button-press vibration and
  \<open>lastPressTime\<close> takes the current time. These are the only effects of the handler.
\<close>

theorem boundary_press_acknowledged:
  assumes "currentState s = CONTENT"
  shows "(currentPage s = 0 \<longrightarrow>
            press img Button0 now s
              = s\<lparr>lastPressTime := now,
                  trace := trace s @ [MotorWrite HIGH, Delay 30, MotorWrite LOW]\<rparr>)
       \<and> (uint (currentPage s) = uint (maxPages s) - 1 \<longrightarrow>
            press img Button1 now s
              = s\<lparr>lastPressTime := now,
                  trace := trace s @ [MotorWrite HIGH, Delay 30, MotorWrite LOW]\<rparr>)"
proof (intro conjI impI)
  assume z: "currentPage s = 0"
  from press0_first_page [OF assms z, of img now]
  show "press img Button0 now s
          = s\<lparr>lastPressTime := now, trace := trace s @ [MotorWrite HIGH, Delay 30, MotorWrite LOW]\<rparr>"
    by (simp add: press_def buttonPressVibration_def vibrate_def)
next
  assume "uint (currentPage s) = uint (maxPages s) - 1"
  then have n: "\<not> uint (currentPage s) < uint (maxPages s) - 1" by simp
  from press1_last_page [OF assms n, of img now]
  show "press img Button1 now s
          = s\<lparr>lastPressTime := now, trace := trace s @ [MotorWrite HIGH, Delay 30, MotorWrite LOW]\<rparr>"
    by (simp add: press_def buttonPressVibration_def vibrate_def)
qed

theorem boundary_press_acknowledged_witness:
  "currentState content_first = CONTENT \<and> currentPage content_first = 0
   \<and> press blank Button0 9 content_first
       = content_first\<lparr>lastPressTime := 9,
           trace := trace content_first @ [MotorWrite HIGH, Delay 30, MotorWrite LOW]\<rparr>
   \<and> currentState content_last = CONTENT
   \<and> uint (currentPage content_last) = uint (maxPages content_last) - 1
   \<and> press blank Button1 9 content_last
       = content_last\<lparr>lastPressTime := 9,
           trace := trace content_last @ [MotorWrite HIGH, Delay 30, MotorWrite LOW]\<rparr>"
proof -
  have a: "currentState content_first = CONTENT" and a0: "currentPage content_first = 0"
    by (simp_all add: content_first_def booted_def)
  have b: "currentState content_last = CONTENT"
    and bl: "uint (currentPage content_last) = uint (maxPages content_last) - 1"
    by (simp_all add: content_last_def content_first_def booted_def)
  note t = boundary_press_acknowledged [OF a, of blank 9, THEN conjunct1, rule_format, OF a0]
  note u = boundary_press_acknowledged [OF b, of blank 9, THEN conjunct2, rule_format, OF bl]
  from a a0 b bl t u show ?thesis by blast
qed

text \<open>
  C6 as stated fails: the previous-page press at page 0 does switch the motor on and does
  change the state (\<open>lastPressTime\<close>).
\<close>

theorem boundary_press_counterexample:
  "currentState content_first = CONTENT \<and> currentPage content_first = 0
   \<and> filter is_haptic (emitted content_first (press blank Button0 9 content_first))
       = [MotorWrite HIGH]
   \<and> lastPressTime content_first = 0
   \<and> lastPressTime (press blank Button0 9 content_first) = 9"
proof -
  have a: "currentState content_first = CONTENT" and a0: "currentPage content_first = 0"
    and l: "lastPressTime content_first = 0"
    by (simp_all add: content_first_def booted_def)
  note e = press0_first_page [OF a a0, of blank 9]
  have "emitted content_first (press blank Button0 9 content_first) = buttonPressVibration"
    by (rule emitted_append) (simp add: press_def e)
  then have "filter is_haptic (emitted content_first (press blank Button0 9 content_first))
      = [MotorWrite HIGH]"
    by (simp add: buttonPressVibration_def vibrate_def)
  moreover have "lastPressTime (press blank Button0 9 content_first) = 9"
    by (simp add: press_def e)
  ultimately show ?thesis using a a0 l by blast
qed

section \<open>Facts about loops of events\<close>

lemma for_events_done: "\<not> i < n \<Longrightarrow> for_events i n body = []"
  by (simp add: for_events.simps)

lemma for_events_step: "i < n \<Longrightarrow> for_events i n body = body i @ for_events (i + 1) n body"
  by (subst for_events.simps) simp

lemma for_events_upto: "for_events i n body = concat (map body [i..n - 1])"
proof (induction i n body rule: for_events.induct)
  case (1 i n body)
  show ?case
  proof (cases "i < n")
    case True
    then have "[i..n - 1] = i # [i + 1..n - 1]" by (simp add: upto_rec1)
    with True 1 show ?thesis by (simp add: for_events_step)
  next
    case False
    then show ?thesis by (simp add: for_events_done)
  qed
qed

lemma concat_singletons: "concat (map (\<lambda>i. [f i]) xs) = map f xs"
  by (induction xs) simp_all

lemma in_for_events:
  "e \<in> set (for_events i n body) \<longleftrightarrow> (\<exists>j. i \<le> j \<and> j < n \<and> e \<in> set (body j))"
  by (auto simp: for_events_upto)

section \<open>Facts about the display\<close>

lemma display_run_append:
  "display_run (es @ es') d
     = (case display_run es d of None \<Rightarrow> None | Some d' \<Rightarrow> display_run es' d')"
  by (induction es arbitrary: d) (auto split: option.splits)

lemma cell_of_cursor:
  "0 \<le> x \<Longrightarrow> x < w \<Longrightarrow> (y * w + x) mod w = x \<and> (y * w + x) div w = (y :: int)"
  by simp

lemma push_row:
  assumes "0 \<le> x" and "x \<le> w" and "0 \<le> y" and "y < h"
    and "ww d = w" and "wh d = h" and "cursor d = y * w + x"
  shows "\<exists>d'. display_run (for_events x w (\<lambda>x. [PushColor (f x)])) d = Some d'
           \<and> wx d' = wx d \<and> wy d' = wy d \<and> ww d' = w \<and> wh d' = h
           \<and> cursor d' = y * w + w
           \<and> (\<forall>a b. fb d' (a, b)
                 = (if b = wy d + y \<and> wx d + x \<le> a \<and> a < wx d + w then f (a - wx d)
                    else fb d (a, b)))"
  using assms
proof (induction x w "\<lambda>x. [PushColor (f x)]" arbitrary: d rule: for_events.induct)
  case (1 x w)
  show ?case
  proof (cases "x < w")
    case False
    with 1(3) have "x = w" by simp
    then show ?thesis using 1(8) by (auto simp: for_events_done 1(6) 1(7))
  next
    case True
    define d1 where
      "d1 = d\<lparr>fb := (fb d)((wx d + x, wy d + y) := f x), cursor := y * w + (x + 1)\<rparr>"
    have cell: "(y * w + x) mod w = x" "(y * w + x) div w = y" "y mod h = y"
      using cell_of_cursor [OF 1(2) True, of y] 1(4) 1(5) by simp_all
    have step: "display_step (PushColor (f x)) d = Some d1"
      using True 1(2) 1(4) 1(5) by (simp add: d1_def 1(6) 1(7) 1(8) cell add.assoc)
    have "\<exists>d'. display_run (for_events (x + 1) w (\<lambda>x. [PushColor (f x)])) d1 = Some d'
           \<and> wx d' = wx d1 \<and> wy d' = wy d1 \<and> ww d' = w \<and> wh d' = h
           \<and> cursor d' = y * w + w
           \<and> (\<forall>a b. fb d' (a, b)
                 = (if b = wy d1 + y \<and> wx d1 + (x + 1) \<le> a \<and> a < wx d1 + w
                    then f (a - wx d1) else fb d1 (a, b)))"
      using True 1(2) 1(4) 1(5) 1(6) 1(7)
      by (intro 1(1)) (simp_all add: d1_def)
    then obtain d' where r: "display_run (for_events (x + 1) w (\<lambda>x. [PushColor (f x)])) d1 = Some d'"
      and w: "wx d' = wx d1" "wy d' = wy d1" "ww d' = w" "wh d' = h" "cursor d' = y * w + w"
      and p: "\<And>a b. fb d' (a, b)
                 = (if b = wy d1 + y \<and> wx d1 + (x + 1) \<le> a \<and> a < wx d1 + w
                    then f (a - wx d1) else fb d1 (a, b))"
      by blast
    have run: "display_run (for_events x w (\<lambda>x. [PushColor (f x)])) d = Some d'"
      by (simp add: for_events_step [OF True] step r del: display_step.simps)
    have pix: "\<forall>a b. fb d' (a, b)
                 = (if b = wy d + y \<and> wx d + x \<le> a \<and> a < wx d + w then f (a - wx d)
                    else fb d (a, b))"
      using True by (auto simp: p d1_def)
    from run w pix show ?thesis by (simp add: d1_def)
  qed
qed

lemma push_rows:
  assumes "0 \<le> y" and "y \<le> h" and "0 < w"
    and "ww d = w" and "wh d = h" and "cursor d = y * w"
  shows "\<exists>d'. display_run
                (for_events y h (\<lambda>y. for_events 0 w (\<lambda>x. [PushColor (g y x)]))) d = Some d'
           \<and> wx d' = wx d \<and> wy d' = wy d \<and> ww d' = w \<and> wh d' = h
           \<and> (\<forall>a b. fb d' (a, b)
                 = (if wy d + y \<le> b \<and> b < wy d + h \<and> wx d \<le> a \<and> a < wx d + w
                    then g (b - wy d) (a - wx d) else fb d (a, b)))"
  using assms
proof (induction y h "\<lambda>y. for_events 0 w (\<lambda>x. [PushColor (g y x)])" arbitrary: d
    rule: for_events.induct)
  case (1 y h)
  show ?case
  proof (cases "y < h")
    case False
    with 1(3) have "y = h" by simp
    then show ?thesis by (auto simp: for_events_done 1(5) 1(6))
  next
    case True
    have w0: "(0::int) \<le> 0" "0 \<le> w" using 1(4) by simp_all
    have c: "cursor d = y * w + 0" using 1(7) by simp
    obtain d1 where r1: "display_run (for_events 0 w (\<lambda>x. [PushColor (g y x)])) d = Some d1"
      and w1: "wx d1 = wx d" "wy d1 = wy d" "ww d1 = w" "wh d1 = h" "cursor d1 = y * w + w"
      and p1: "\<And>a b. fb d1 (a, b)
                 = (if b = wy d + y \<and> wx d + 0 \<le> a \<and> a < wx d + w then g y (a - wx d)
                    else fb d (a, b))"
      using push_row [OF w0 1(2) True 1(5) 1(6) c, of "g y"] by blast
    have c1: "cursor d1 = (y + 1) * w" by (simp add: w1 algebra_simps)
    have "\<exists>d'. display_run
                (for_events (y + 1) h (\<lambda>y. for_events 0 w (\<lambda>x. [PushColor (g y x)]))) d1
              = Some d'
           \<and> wx d' = wx d1 \<and> wy d' = wy d1 \<and> ww d' = w \<and> wh d' = h
           \<and> (\<forall>a b. fb d' (a, b)
                 = (if wy d1 + (y + 1) \<le> b \<and> b < wy d1 + h \<and> wx d1 \<le> a \<and> a < wx d1 + w
                    then g (b - wy d1) (a - wx d1) else fb d1 (a, b)))"
      using True 1(2) 1(4) w1(3) w1(4) c1 by (intro 1(1)) simp_all
    then obtain d' where
      r: "display_run
            (for_events (y + 1) h (\<lambda>y. for_events 0 w (\<lambda>x. [PushColor (g y x)]))) d1 = Some d'"
      and w: "wx d' = wx d1" "wy d' = wy d1" "ww d' = w" "wh d' = h"
      and p: "\<And>a b. fb d' (a, b)
                 = (if wy d1 + (y + 1) \<le> b \<and> b < wy d1 + h \<and> wx d1 \<le> a \<and> a < wx d1 + w
                    then g (b - wy d1) (a - wx d1) else fb d1 (a, b))"
      by blast
    have run: "display_run
                (for_events y h (\<lambda>y. for_events 0 w (\<lambda>x. [PushColor (g y x)]))) d = Some d'"
      by (simp add: for_events_step [OF True] display_run_append r1 r)
    have pix: "\<forall>a b. fb d' (a, b)
                 = (if wy d + y \<le> b \<and> b < wy d + h \<and> wx d \<le> a \<and> a < wx d + w
                    then g (b - wy d) (a - wx d) else fb d (a, b))"
      using True by (auto simp: p p1 w1)
    from run w w1 pix show ?thesis by simp
  qed
qed

lemma image_cell:
  assumes "0 \<le> i" and "i < 20480"
  shows "(a = x0 + i mod 128 \<and> b = y0 + i div 128)
         = (x0 \<le> a \<and> a < x0 + 128 \<and> y0 \<le> b \<and> b < y0 + 160
            \<and> (b - y0) * 128 + (a - x0) = (i :: int))"
proof
  assume "a = x0 + i mod 128 \<and> b = y0 + i div 128"
  then show "x0 \<le> a \<and> a < x0 + 128 \<and> y0 \<le> b \<and> b < y0 + 160
            \<and> (b - y0) * 128 + (a - x0) = i"
    using assms by (simp add: pos_imp_zdiv_nonneg_iff)
next
  assume h: "x0 \<le> a \<and> a < x0 + 128 \<and> y0 \<le> b \<and> b < y0 + 160
            \<and> (b - y0) * 128 + (a - x0) = i"
  then have r: "0 \<le> a - x0" "a - x0 < 128" and i: "i = (b - y0) * 128 + (a - x0)"
    by simp_all
  from cell_of_cursor [OF r, of "b - y0"] show "a = x0 + i mod 128 \<and> b = y0 + i div 128"
    unfolding i by simp
qed

lemma push_image:
  assumes "0 \<le> i" and "i \<le> 20480"
    and "ww d = 128" and "wh d = 160" and "cursor d = i"
  shows "\<exists>d'. display_run (for_events i 20480 (\<lambda>i. [PushColor (f i)])) d = Some d'
           \<and> (\<forall>a b. fb d' (a, b)
                 = (if wx d \<le> a \<and> a < wx d + 128 \<and> wy d \<le> b \<and> b < wy d + 160
                       \<and> i \<le> (b - wy d) * 128 + (a - wx d)
                    then f ((b - wy d) * 128 + (a - wx d)) else fb d (a, b)))"
  using assms
proof (induction i "20480 :: int" "\<lambda>i. [PushColor (f i)]" arbitrary: d
    rule: for_events.induct)
  case (1 i)
  show ?case
  proof (cases "i < 20480")
    case False
    with 1(3) have e: "i = 20480" by simp
    have "\<And>a b. wx d \<le> a \<Longrightarrow> a < wx d + 128 \<Longrightarrow> wy d \<le> b \<Longrightarrow> b < wy d + 160 \<Longrightarrow>
        \<not> i \<le> (b - wy d) * 128 + (a - wx d)"
      unfolding e by simp
    then show ?thesis using False by (auto simp: for_events_done)
  next
    case True
    define d1 where
      "d1 = d\<lparr>fb := (fb d)((wx d + i mod 128, wy d + i div 128) := f i), cursor := i + 1\<rparr>"
    have m: "(i div 128) mod 160 = i div 128"
      using 1(2) True by (simp add: pos_imp_zdiv_nonneg_iff)
    have step: "display_step (PushColor (f i)) d = Some d1"
      by (simp add: d1_def 1(4) 1(5) 1(6) m)
    have "\<exists>d'. display_run (for_events (i + 1) 20480 (\<lambda>i. [PushColor (f i)])) d1 = Some d'
           \<and> (\<forall>a b. fb d' (a, b)
                 = (if wx d1 \<le> a \<and> a < wx d1 + 128 \<and> wy d1 \<le> b \<and> b < wy d1 + 160
                       \<and> i + 1 \<le> (b - wy d1) * 128 + (a - wx d1)
                    then f ((b - wy d1) * 128 + (a - wx d1)) else fb d1 (a, b)))"
      using True 1(2) 1(4) 1(5) by (intro 1(1)) (simp_all add: d1_def)
    then obtain d' where
      r: "display_run (for_events (i + 1) 20480 (\<lambda>i. [PushColor (f i)])) d1 = Some d'"
      and p: "\<And>a b. fb d' (a, b)
                 = (if wx d \<le> a \<and> a < wx d + 128 \<and> wy d \<le> b \<and> b < wy d + 160
                       \<and> i + 1 \<le> (b - wy d) * 128 + (a - wx d)
                    then f ((b - wy d) * 128 + (a - wx d)) else fb d1 (a, b))"
      by (auto simp: d1_def)
    have run: "display_run (for_events i 20480 (\<lambda>i. [PushColor (f i)])) d = Some d'"
      by (simp add: for_events_step [OF True] step r del: display_step.simps)
    have pix: "fb d' (a, b)
                 = (if wx d \<le> a \<and> a < wx d + 128 \<and> wy d \<le> b \<and> b < wy d + 160
                       \<and> i \<le> (b - wy d) * 128 + (a - wx d)
                    then f ((b - wy d) * 128 + (a - wx d)) else fb d (a, b))" for a b
    proof (cases "a = wx d + i mod 128 \<and> b = wy d + i div 128")
      case True
      then have "wx d \<le> a \<and> a < wx d + 128 \<and> wy d \<le> b \<and> b < wy d + 160
            \<and> (b - wy d) * 128 + (a - wx d) = i"
        using image_cell [OF 1(2) \<open>i < 20480\<close>, of a "wx d" b "wy d"] by blast
      then show ?thesis using True by (simp add: p d1_def)
    next
      case False
      then have n: "\<not> (wx d \<le> a \<and> a < wx d + 128 \<and> wy d \<le> b \<and> b < wy d + 160
            \<and> (b - wy d) * 128 + (a - wx d) = i)"
        using image_cell [OF 1(2) \<open>i < 20480\<close>, of a "wx d" b "wy d"] by blast
      have o: "fb d1 (a, b) = fb d (a, b)" using False by (auto simp: d1_def)
      show ?thesis
      proof (cases "wx d \<le> a \<and> a < wx d + 128 \<and> wy d \<le> b \<and> b < wy d + 160")
        case True
        with n have "(b - wy d) * 128 + (a - wx d) \<noteq> i" by blast
        then have "(i + 1 \<le> (b - wy d) * 128 + (a - wx d)) = (i \<le> (b - wy d) * 128 + (a - wx d))"
          by linarith
        then show ?thesis by (simp add: p o)
      next
        case False
        then show ?thesis by (auto simp: p o)
      qed
    qed
    from run pix show ?thesis by blast
  qed
qed

section \<open>Facts about the image routines\<close>

lemma drawFullScreenImage_shows:
  "\<exists>d'. display_run (drawFullScreenImage img) d = Some d'
     \<and> (\<forall>x y. fb d' (x, y)
           = (if 0 \<le> x \<and> x < SCREEN_W \<and> 0 \<le> y \<and> y < SCREEN_H then img (y * SCREEN_W + x)
              else fb d (x, y)))"
proof -
  define d0 where "d0 = d\<lparr>wx := 0, wy := 0, ww := 128, wh := 160, cursor := 0\<rparr>"
  have "\<exists>d'. display_run (for_events 0 20480 (\<lambda>i. [PushColor (img i)])) d0 = Some d'
           \<and> (\<forall>a b. fb d' (a, b)
                 = (if wx d0 \<le> a \<and> a < wx d0 + 128 \<and> wy d0 \<le> b \<and> b < wy d0 + 160
                       \<and> 0 \<le> (b - wy d0) * 128 + (a - wx d0)
                    then img ((b - wy d0) * 128 + (a - wx d0)) else fb d0 (a, b)))"
    by (rule push_image) (simp_all add: d0_def)
  then obtain d' where r: "display_run (for_events 0 20480 (\<lambda>i. [PushColor (img i)])) d0 = Some d'"
    and p: "\<And>a b. fb d' (a, b)
                 = (if 0 \<le> a \<and> a < 128 \<and> 0 \<le> b \<and> b < 160 \<and> 0 \<le> b * 128 + a
                    then img (b * 128 + a) else fb d (a, b))"
    by (auto simp: d0_def)
  have "display_run (drawFullScreenImage img) d = Some d'"
    by (simp add: drawFullScreenImage_def display_run_append r d0_def [symmetric])
  moreover have "fb d' (x, y)
           = (if 0 \<le> x \<and> x < 128 \<and> 0 \<le> y \<and> y < 160 then img (y * 128 + x)
              else fb d (x, y))" for x y
    by (auto simp: p)
  ultimately show ?thesis by blast
qed

lemma slideStep_shows:
  assumes "1 \<le> i"
  shows "\<exists>d'. display_run (slideStep img direction 8 i) d = Some d'
     \<and> (\<forall>x y. fb d' (x, y)
           = (if 0 \<le> y \<and> y < SCREEN_H
                 \<and> (if direction then 0 \<le> x \<and> x < i * 8
                     else SCREEN_W - i * 8 \<le> x \<and> x < SCREEN_W)
              then img (y * SCREEN_W
                        + (if direction then SCREEN_W - i * 8 + x else x - (SCREEN_W - i * 8)))
              else fb d (x, y)))"
proof (cases direction)
  case True
  define d0 where "d0 = d\<lparr>wx := 0, wy := 0, ww := i * 8, wh := 160, cursor := 0\<rparr>"
  have "\<exists>d'. display_run (for_events 0 160 (\<lambda>y. for_events 0 (i * 8)
                (\<lambda>x. [PushColor (img (y * 128 + (128 - i * 8 + x)))]))) d0 = Some d'
           \<and> wx d' = wx d0 \<and> wy d' = wy d0 \<and> ww d' = i * 8 \<and> wh d' = 160
           \<and> (\<forall>a b. fb d' (a, b)
                 = (if wy d0 + 0 \<le> b \<and> b < wy d0 + 160 \<and> wx d0 \<le> a \<and> a < wx d0 + i * 8
                    then img ((b - wy d0) * 128 + (128 - i * 8 + (a - wx d0))) else fb d0 (a, b)))"
    using assms
    by (intro push_rows [where g = "\<lambda>y x. img (y * 128 + (128 - i * 8 + x))"])
       (simp_all add: d0_def)
  then obtain d' where
    r: "display_run (for_events 0 160 (\<lambda>y. for_events 0 (i * 8)
                (\<lambda>x. [PushColor (img (y * 128 + (128 - i * 8 + x)))]))) d0 = Some d'"
    and p: "\<And>a b. fb d' (a, b)
                 = (if 0 \<le> b \<and> b < 160 \<and> 0 \<le> a \<and> a < i * 8
                    then img (b * 128 + (128 - i * 8 + a)) else fb d (a, b))"
    by (auto simp: d0_def)
  have "display_run (slideStep img direction 8 i) d = Some d'"
    by (simp add: slideStep_def True Let_def display_run_append r d0_def [symmetric])
  then show ?thesis using True by (auto simp: p)
next
  case False
  define d0 where
    "d0 = d\<lparr>wx := 128 - i * 8, wy := 0, ww := i * 8, wh := 160, cursor := 0\<rparr>"
  have "\<exists>d'. display_run (for_events 0 160 (\<lambda>y. for_events 0 (i * 8)
                (\<lambda>x. [PushColor (img (y * 128 + x))]))) d0 = Some d'
           \<and> wx d' = wx d0 \<and> wy d' = wy d0 \<and> ww d' = i * 8 \<and> wh d' = 160
           \<and> (\<forall>a b. fb d' (a, b)
                 = (if wy d0 + 0 \<le> b \<and> b < wy d0 + 160 \<and> wx d0 \<le> a \<and> a < wx d0 + i * 8
                    then img ((b - wy d0) * 128 + (a - wx d0)) else fb d0 (a, b)))"
    using assms
    by (intro push_rows [where g = "\<lambda>y x. img (y * 128 + x)"]) (simp_all add: d0_def)
  then obtain d' where
    r: "display_run (for_events 0 160 (\<lambda>y. for_events 0 (i * 8)
                (\<lambda>x. [PushColor (img (y * 128 + x))]))) d0 = Some d'"
    and p: "\<And>a b. fb d' (a, b)
                 = (if 0 \<le> b \<and> b < 160 \<and> 128 - i * 8 \<le> a \<and> a < 128
                    then img (b * 128 + (a - (128 - i * 8))) else fb d (a, b))"
    by (auto simp: d0_def)
  have "display_run (slideStep img direction 8 i) d = Some d'"
    by (simp add: slideStep_def False Let_def display_run_append r d0_def [symmetric])
  then show ?thesis using False by (auto simp: p)
qed

lemma slide_steps_run:
  "1 \<le> i \<Longrightarrow> \<exists>d'. display_run (for_events i 17 (slideStep img direction 8)) d = Some d'"
proof (induction i "17 :: int" "slideStep img direction 8" arbitrary: d rule: for_events.induct)
  case (1 i)
  show ?case
  proof (cases "i < 17")
    case False
    then show ?thesis by (simp add: for_events_done)
  next
    case True
    obtain d1 where s: "display_run (slideStep img direction 8 i) d = Some d1"
      using slideStep_shows [OF 1(2)] by blast
    have "1 \<le> i + 1" using 1(2) by simp
    from 1(1) [OF True this] obtain d' where
      "display_run (for_events (i + 1) 17 (slideStep img direction 8)) d1 = Some d'"
      by blast
    then show ?thesis by (simp add: for_events_step [OF True] display_run_append s)
  qed
qed

lemma slideAnimation_shows:
  "\<exists>d'. display_run (slideAnimation img direction) d = Some d'
     \<and> (\<forall>x y. 0 \<le> x \<and> x < SCREEN_W \<and> 0 \<le> y \<and> y < SCREEN_H \<longrightarrow>
                fb d' (x, y) = img (y * SCREEN_W + x))"
proof -
  obtain d1 where s: "display_run (for_events 1 17 (slideStep img direction 8)) d = Some d1"
    using slide_steps_run [of 1 img direction d] by auto
  obtain d' where r: "display_run (drawFullScreenImage img) d1 = Some d'"
    and p: "\<And>x y. fb d' (x, y)
           = (if 0 \<le> x \<and> x < 128 \<and> 0 \<le> y \<and> y < 160 then img (y * 128 + x)
              else fb d1 (x, y))"
    using drawFullScreenImage_shows [of img d1] by blast
  have "display_run (slideAnimation img direction) d = Some d'"
    by (simp add: slideAnimation_def Let_def display_run_append s r)
  then show ?thesis by (auto simp: p)
qed

lemma slide_prefix_shows:
  assumes "1 \<le> i"
  shows "\<exists>d'. display_run (concat (map (slideStep img direction 8) [1..i])) d = Some d'
     \<and> (\<forall>x y. fb d' (x, y)
           = (if 0 \<le> y \<and> y < SCREEN_H
                 \<and> (if direction then 0 \<le> x \<and> x < i * 8
                     else SCREEN_W - i * 8 \<le> x \<and> x < SCREEN_W)
              then img (y * SCREEN_W
                        + (if direction then SCREEN_W - i * 8 + x else x - (SCREEN_W - i * 8)))
              else fb d (x, y)))"
  using assms
proof (induction i rule: int_ge_induct)
  case base
  have "[1..1] = [1 :: int]" by (simp add: upto_rec1)
  then show ?case using slideStep_shows [of 1 img direction d] by simp
next
  case (step i)
  obtain d1 where r1: "display_run (concat (map (slideStep img direction 8) [1..i])) d = Some d1"
    and p1: "\<And>x y. fb d1 (x, y)
           = (if 0 \<le> y \<and> y < SCREEN_H
                 \<and> (if direction then 0 \<le> x \<and> x < i * 8
                     else SCREEN_W - i * 8 \<le> x \<and> x < SCREEN_W)
              then img (y * SCREEN_W
                        + (if direction then SCREEN_W - i * 8 + x else x - (SCREEN_W - i * 8)))
              else fb d (x, y))"
    using step.IH by blast
  have n: "1 \<le> i + 1" using step.hyps by simp
  obtain d2 where r2: "display_run (slideStep img direction 8 (i + 1)) d1 = Some d2"
    and p2: "\<And>x y. fb d2 (x, y)
           = (if 0 \<le> y \<and> y < SCREEN_H
                 \<and> (if direction then 0 \<le> x \<and> x < (i + 1) * 8
                     else SCREEN_W - (i + 1) * 8 \<le> x \<and> x < SCREEN_W)
              then img (y * SCREEN_W
                        + (if direction then SCREEN_W - (i + 1) * 8 + x
                           else x - (SCREEN_W - (i + 1) * 8)))
              else fb d1 (x, y))"
    using slideStep_shows [OF n, of img direction d1] by blast
  have u: "[1..i + 1] = [1..i] @ [i + 1]"
    using step.hyps by (simp add: upto_rec2)
  have run: "display_run (concat (map (slideStep img direction 8) [1..i + 1])) d = Some d2"
    by (simp add: u display_run_append r1 r2)
  have pix: "fb d2 (x, y)
           = (if 0 \<le> y \<and> y < SCREEN_H
                 \<and> (if direction then 0 \<le> x \<and> x < (i + 1) * 8
                     else SCREEN_W - (i + 1) * 8 \<le> x \<and> x < SCREEN_W)
              then img (y * SCREEN_W
                        + (if direction then SCREEN_W - (i + 1) * 8 + x
                           else x - (SCREEN_W - (i + 1) * 8)))
              else fb d (x, y))" for x y
    unfolding p2 p1 by auto
  from run pix show ?case by blast
qed

lemma slideAnimation_steps:
  "slideAnimation img direction
     = concat (map (slideStep img direction (SCREEN_W div 16)) [1..16])
       @ drawFullScreenImage img"
  by (simp add: slideAnimation_def Let_def for_events_upto)

lemma slide_prefix:
  assumes "1 \<le> i" and "i \<le> 16"
  shows "\<exists>rest. slideAnimation img direction
           = concat (map (slideStep img direction (SCREEN_W div 16)) [1..i]) @ rest"
proof -
  have "[1..16] = [1..i] @ [i + 1..16]"
    using assms by (intro upto_split2) simp_all
  then show ?thesis by (simp add: slideAnimation_steps)
qed

lemma drawFullScreenImage_events:
  "drawFullScreenImage img
     = [StartWrite, SetAddrWindow 0 0 SCREEN_W SCREEN_H]
       @ map (\<lambda>k. PushColor (img k)) [0..SCREEN_W * SCREEN_H - 1] @ [EndWrite]"
  by (simp add: drawFullScreenImage_def for_events_upto concat_singletons)

lemma slideStep_pushes:
  assumes "0 \<le> y" and "y < SCREEN_H" and "0 \<le> x" and "x < i * 8"
  shows "PushColor (img (y * SCREEN_W + (if direction then SCREEN_W - i * 8 + x else x)))
           \<in> set (slideStep img direction 8 i)"
  using assms by (auto simp: slideStep_def Let_def in_for_events)

lemma slideStep_pixels:
  assumes "1 \<le> i" and "i \<le> 16" and "PushColor c \<in> set (slideStep img direction 8 i)"
  shows "\<exists>k. 0 \<le> k \<and> k < SCREEN_W * SCREEN_H \<and> c = img k"
proof (cases direction)
  case True
  with assms(3) obtain y x where "0 \<le> y" "y < 160" "0 \<le> x" "x < i * 8"
    "c = img (y * 128 + (128 - i * 8 + x))"
    by (auto simp: slideStep_def Let_def in_for_events)
  with assms(1,2) show ?thesis
    by (intro exI [of _ "y * 128 + (128 - i * 8 + x)"]) simp
next
  case False
  with assms(3) obtain y x where "0 \<le> y" "y < 160" "0 \<le> x" "x < i * 8"
    "c = img (y * 128 + x)"
    by (auto simp: slideStep_def Let_def in_for_events)
  with assms(1,2) show ?thesis
    by (intro exI [of _ "y * 128 + x"]) simp
qed

lemma drawFullScreenImage_pixels:
  assumes "PushColor c \<in> set (drawFullScreenImage img)"
  shows "\<exists>k. 0 \<le> k \<and> k < SCREEN_W * SCREEN_H \<and> c = img k"
  using assms by (auto simp: drawFullScreenImage_def in_for_events)

lemma slideAnimation_pixels:
  assumes "PushColor c \<in> set (slideAnimation img direction)"
  shows "\<exists>k. 0 \<le> k \<and> k < SCREEN_W * SCREEN_H \<and> c = img k"
proof -
  from assms have "(\<exists>i. 1 \<le> i \<and> i < 17 \<and> PushColor c \<in> set (slideStep img direction 8 i))
      \<or> PushColor c \<in> set (drawFullScreenImage img)"
    by (auto simp: slideAnimation_def Let_def in_for_events)
  then show ?thesis
  proof
    assume "\<exists>i. 1 \<le> i \<and> i < 17 \<and> PushColor c \<in> set (slideStep img direction 8 i)"
    then obtain i where "1 \<le> i" "i \<le> 16" "PushColor c \<in> set (slideStep img direction 8 i)"
      by auto
    then show ?thesis by (rule slideStep_pixels)
  next
    assume "PushColor c \<in> set (drawFullScreenImage img)"
    then show ?thesis by (rule drawFullScreenImage_pixels)
  qed
qed

section \<open>Facts about the Memories screen\<close>

lemma updatePageContent_memories:
  "updatePageContent img 1 s
     = s\<lparr>lastMemoryPage := currentPage s,
         trace := trace s @ pageTurnVibration
                  @ slideAnimation img (currentPage s > lastMemoryPage s)
                  @ pageIndicator (maxPages s) (currentPage s)\<rparr>"
  by (simp add: updatePageContent_def drawPageIndicator_def emit_def Let_def pageIndicator_def)

lemma showContent_memories:
  "showContent img 1 s
     = s\<lparr>maxPages := 3, currentPage := 0, lastMemoryPage := 0,
         trace := trace s @ vibrate VIB_MEDIUM @ drawFullScreenImage img @ pageIndicator 3 0\<rparr>"
  by (simp add: showContent_def drawPageIndicator_def emit_def Let_def)

lemma pageIndicator_three:
  "pageIndicator 3 0
     = [FillCircle 51 148 4 ACCENT_PURPLE, DrawCircle 51 148 5 ACCENT_PURPLE,
        DrawCircle 64 148 2 CIRCLE_EMPTY, FillCircle 64 148 1 CIRCLE_EMPTY,
        DrawCircle 77 148 2 CIRCLE_EMPTY, FillCircle 77 148 1 CIRCLE_EMPTY]"
  "pageIndicator 3 1
     = [DrawCircle 51 148 2 CIRCLE_EMPTY, FillCircle 51 148 1 CIRCLE_EMPTY,
        FillCircle 64 148 4 ACCENT_PURPLE, DrawCircle 64 148 5 ACCENT_PURPLE,
        DrawCircle 77 148 2 CIRCLE_EMPTY, FillCircle 77 148 1 CIRCLE_EMPTY]"
  "pageIndicator 3 2
     = [DrawCircle 51 148 2 CIRCLE_EMPTY, FillCircle 51 148 1 CIRCLE_EMPTY,
        DrawCircle 64 148 2 CIRCLE_EMPTY, FillCircle 64 148 1 CIRCLE_EMPTY,
        FillCircle 77 148 4 ACCENT_PURPLE, DrawCircle 77 148 5 ACCENT_PURPLE]"
  by (simp_all add: pageIndicator_def Let_def c_div_def for_events.simps)

section \<open>Turning pages in the Memories screen\<close>

lemma next_page_greater:
  assumes "uint (p :: 8 word) < uint (m :: 8 word) - 1"
  shows "p < p + 1"
proof -
  have "uint p + 1 < 2 ^ 8" using assms uint_lt2p [of m] by simp
  then have "uint (p + 1) = uint p + 1"
    by (simp add: uint_word_ariths(1) take_bit_eq_mod)
  then show ?thesis by (simp add: word_less_def)
qed

lemma previous_page_smaller:
  assumes "0 < (p :: 8 word)"
  shows "\<not> p - 1 > p"
proof -
  have "uint (1 :: 8 word) \<le> uint p"
    using assms by (simp add: word_less_def)
  then have "uint (p - 1) = uint p - uint (1 :: 8 word)"
    using uint_sub_lem [of 1 p] by blast
  then show ?thesis by (simp add: word_less_def)
qed

lemma press1_memories:
  assumes "currentState s = CONTENT" and "selectedMenuItem s = 1"
    and "lastMemoryPage s = currentPage s"
    and "uint (currentPage s) < uint (maxPages s) - 1"
  shows "press img Button1 now s
     = s\<lparr>lastPressTime := now, currentPage := currentPage s + 1,
         lastMemoryPage := currentPage s + 1,
         trace := trace s @ buttonPressVibration @ pageTurnVibration
                  @ slideAnimation img True
                  @ pageIndicator (maxPages s) (currentPage s + 1)\<rparr>"
  using assms next_page_greater [OF assms(4)]
  by (simp add: press_def press1_def emit_def Let_def updatePageContent_memories)

lemma press0_memories:
  assumes "currentState s = CONTENT" and "selectedMenuItem s = 1"
    and "lastMemoryPage s = currentPage s"
    and "0 < currentPage s"
  shows "press img Button0 now s
     = s\<lparr>lastPressTime := now, currentPage := currentPage s - 1,
         lastMemoryPage := currentPage s - 1,
         trace := trace s @ buttonPressVibration @ pageTurnVibration
                  @ slideAnimation img False
                  @ pageIndicator (maxPages s) (currentPage s - 1)\<rparr>"
  using assms previous_page_smaller [OF assms(4)]
  by (simp add: press_def press0_def emit_def Let_def updatePageContent_memories)

lemma pressSelect_memories:
  assumes "currentState s = MENU" and "selectedMenuItem s = 1"
  shows "press img ButtonSelect now s
     = s\<lparr>currentState := CONTENT, lastPressTime := now,
         maxPages := 3, currentPage := 0, lastMemoryPage := 0,
         trace := trace s @ buttonPressVibration @ vibrate VIB_MEDIUM
                  @ drawFullScreenImage img @ pageIndicator 3 0
                  @ setRGBLeds (Color 50 50 50)\<rparr>"
  using assms
  by (simp add: press_def pressSelect_def emit_def Let_def showContent_memories)

lemma pressBack_content:
  assumes "currentState s = CONTENT"
  shows "currentState (press img ButtonBack now s) = MENU
       \<and> selectedMenuItem (press img ButtonBack now s) = selectedMenuItem s"
  using assms by (simp add: press_def pressBack_def emit_def Let_def drawMenu_def)

text \<open>
  C7. The slide runs sixteen steps and then blits the whole incoming image. Step \<open>i\<close>
  paints a strip \<open>i * (SCREEN_W div 16)\<close> columns wide and leaves every other pixel as it
  was: going forward the strip is at the left of the screen and shows the rightmost columns
  of the image, going backward it is at the right and shows the leftmost columns. The
  strips are nested, so after the first \<open>i\<close> steps the screen shows that strip of the
  incoming image and, everywhere else, what it showed before the slide began. After the
  whole animation every pixel of the screen shows the image. The blit that ends the
  animation opens the whole screen as its window and pushes the \<open>SCREEN_W * SCREEN_H\<close>
  entries of the image in index order; run on any panel it paints every pixel of the
  screen from the image and nothing outside the screen. The direction passed is forward
  exactly when the new page index is above the one remembered from the last page shown;
  in the Memories screen of a consistent device that is the old page, so a next slides
  forward and a previous backward.
\<close>

theorem slide_transition:
  "slideAnimation img direction
     = concat (map (slideStep img direction (SCREEN_W div 16)) [1..16])
       @ drawFullScreenImage img
   \<and> length ([1..16] :: int list) = 16
   \<and> (\<forall>i d. 1 \<le> i \<and> i \<le> 16 \<longrightarrow>
         (\<exists>d'. display_run (slideStep img direction (SCREEN_W div 16) i) d = Some d'
            \<and> (\<forall>x y. fb d' (x, y)
                  = (if 0 \<le> y \<and> y < SCREEN_H
                        \<and> (if direction then 0 \<le> x \<and> x < i * (SCREEN_W div 16)
                            else SCREEN_W - i * (SCREEN_W div 16) \<le> x \<and> x < SCREEN_W)
                     then img (y * SCREEN_W
                               + (if direction then SCREEN_W - i * (SCREEN_W div 16) + x
                                  else x - (SCREEN_W - i * (SCREEN_W div 16))))
                     else fb d (x, y)))))
   \<and> (\<forall>i d. 1 \<le> i \<and> i \<le> 16 \<longrightarrow>
         (\<exists>d'. display_run
                  (concat (map (slideStep img direction (SCREEN_W div 16)) [1..i])) d = Some d'
            \<and> (\<forall>x y. fb d' (x, y)
                  = (if 0 \<le> y \<and> y < SCREEN_H
                        \<and> (if direction then 0 \<le> x \<and> x < i * (SCREEN_W div 16)
                            else SCREEN_W - i * (SCREEN_W div 16) \<le> x \<and> x < SCREEN_W)
                     then img (y * SCREEN_W
                               + (if direction then SCREEN_W - i * (SCREEN_W div 16) + x
                                  else x - (SCREEN_W - i * (SCREEN_W div 16))))
                     else fb d (x, y)))))
   \<and> (\<forall>d. \<exists>d'. display_run (slideAnimation img direction) d = Some d'
          \<and> (\<forall>x y. 0 \<le> x \<and> x < SCREEN_W \<and> 0 \<le> y \<and> y < SCREEN_H \<longrightarrow>
                 fb d' (x, y) = img (y * SCREEN_W + x)))
   \<and> drawFullScreenImage img
        = [StartWrite, SetAddrWindow 0 0 SCREEN_W SCREEN_H]
          @ map (\<lambda>k. PushColor (img k)) [0..SCREEN_W * SCREEN_H - 1] @ [EndWrite]
   \<and> (\<forall>d. \<exists>d'. display_run (drawFullScreenImage img) d = Some d'
          \<and> (\<forall>x y. fb d' (x, y)
                = (if 0 \<le> x \<and> x < SCREEN_W \<and> 0 \<le> y \<and> y < SCREEN_H
                   then img (y * SCREEN_W + x) else fb d (x, y))))
   \<and> emitted s (updatePageContent img 1 s)
       = pageTurnVibration @ slideAnimation img (currentPage s > lastMemoryPage s)
         @ pageIndicator (maxPages s) (currentPage s)
   \<and> lastMemoryPage (updatePageContent img 1 s) = currentPage s
   \<and> (consistent s \<and> currentState s = CONTENT \<and> selectedMenuItem s = 1 \<longrightarrow>
        (uint (currentPage s) < uint (maxPages s) - 1 \<longrightarrow>
           emitted s (press img Button1 now s)
             = buttonPressVibration @ pageTurnVibration @ slideAnimation img True
               @ pageIndicator (maxPages s) (currentPage s + 1)
           \<and> lastMemoryPage (press img Button1 now s) = currentPage (press img Button1 now s))
        \<and> (0 < currentPage s \<longrightarrow>
           emitted s (press img Button0 now s)
             = buttonPressVibration @ pageTurnVibration @ slideAnimation img False
               @ pageIndicator (maxPages s) (currentPage s - 1)
           \<and> lastMemoryPage (press img Button0 now s) = currentPage (press img Button0 now s)))"
proof (intro conjI allI impI)
  show "slideAnimation img direction
     = concat (map (slideStep img direction (SCREEN_W div 16)) [1..16])
       @ drawFullScreenImage img"
    by (rule slideAnimation_steps)
  show "length ([1..16] :: int list) = 16" by simp
  show "\<exists>d'. display_run (slideAnimation img direction) d = Some d'
          \<and> (\<forall>x y. 0 \<le> x \<and> x < SCREEN_W \<and> 0 \<le> y \<and> y < SCREEN_H \<longrightarrow>
                 fb d' (x, y) = img (y * SCREEN_W + x))" for d
    by (rule slideAnimation_shows)
  show "drawFullScreenImage img
        = [StartWrite, SetAddrWindow 0 0 SCREEN_W SCREEN_H]
          @ map (\<lambda>k. PushColor (img k)) [0..SCREEN_W * SCREEN_H - 1] @ [EndWrite]"
    by (rule drawFullScreenImage_events)
  show "\<exists>d'. display_run (drawFullScreenImage img) d = Some d'
          \<and> (\<forall>x y. fb d' (x, y)
                = (if 0 \<le> x \<and> x < SCREEN_W \<and> 0 \<le> y \<and> y < SCREEN_H
                   then img (y * SCREEN_W + x) else fb d (x, y)))" for d
    by (rule drawFullScreenImage_shows)
  show "emitted s (updatePageContent img 1 s)
       = pageTurnVibration @ slideAnimation img (currentPage s > lastMemoryPage s)
         @ pageIndicator (maxPages s) (currentPage s)"
    by (rule emitted_append) (simp add: updatePageContent_memories)
  show "lastMemoryPage (updatePageContent img 1 s) = currentPage s"
    by (simp add: updatePageContent_memories)
next
  fix i :: int and d :: panel
  assume "1 \<le> i \<and> i \<le> 16"
  then have "1 \<le> i" by blast
  have e: "(128 :: int) div 16 = 8" by simp
  show "\<exists>d'. display_run (slideStep img direction (SCREEN_W div 16) i) d = Some d'
            \<and> (\<forall>x y. fb d' (x, y)
                  = (if 0 \<le> y \<and> y < SCREEN_H
                        \<and> (if direction then 0 \<le> x \<and> x < i * (SCREEN_W div 16)
                            else SCREEN_W - i * (SCREEN_W div 16) \<le> x \<and> x < SCREEN_W)
                     then img (y * SCREEN_W
                               + (if direction then SCREEN_W - i * (SCREEN_W div 16) + x
                                  else x - (SCREEN_W - i * (SCREEN_W div 16))))
                     else fb d (x, y)))"
    unfolding e by (rule slideStep_shows [OF \<open>1 \<le> i\<close>])
next
  fix i :: int and d :: panel
  assume "1 \<le> i \<and> i \<le> 16"
  then have "1 \<le> i" by blast
  have e: "(128 :: int) div 16 = 8" by simp
  show "\<exists>d'. display_run
                  (concat (map (slideStep img direction (SCREEN_W div 16)) [1..i])) d = Some d'
            \<and> (\<forall>x y. fb d' (x, y)
                  = (if 0 \<le> y \<and> y < SCREEN_H
                        \<and> (if direction then 0 \<le> x \<and> x < i * (SCREEN_W div 16)
                            else SCREEN_W - i * (SCREEN_W div 16) \<le> x \<and> x < SCREEN_W)
                     then img (y * SCREEN_W
                               + (if direction then SCREEN_W - i * (SCREEN_W div 16) + x
                                  else x - (SCREEN_W - i * (SCREEN_W div 16))))
                     else fb d (x, y)))"
    unfolding e by (rule slide_prefix_shows [OF \<open>1 \<le> i\<close>])
next
  assume h: "consistent s \<and> currentState s = CONTENT \<and> selectedMenuItem s = 1"
    and n: "uint (currentPage s) < uint (maxPages s) - 1"
  from h have c: "currentState s = CONTENT" "selectedMenuItem s = 1"
    "lastMemoryPage s = currentPage s" by (auto simp: consistent_def)
  note e = press1_memories [OF c n, of img now]
  show "emitted s (press img Button1 now s)
             = buttonPressVibration @ pageTurnVibration @ slideAnimation img True
               @ pageIndicator (maxPages s) (currentPage s + 1)"
    by (rule emitted_append) (simp add: e)
  show "lastMemoryPage (press img Button1 now s) = currentPage (press img Button1 now s)"
    by (simp add: e)
next
  assume h: "consistent s \<and> currentState s = CONTENT \<and> selectedMenuItem s = 1"
    and n: "0 < currentPage s"
  from h have c: "currentState s = CONTENT" "selectedMenuItem s = 1"
    "lastMemoryPage s = currentPage s" by (auto simp: consistent_def)
  note e = press0_memories [OF c n, of img now]
  show "emitted s (press img Button0 now s)
             = buttonPressVibration @ pageTurnVibration @ slideAnimation img False
               @ pageIndicator (maxPages s) (currentPage s - 1)"
    by (rule emitted_append) (simp add: e)
  show "lastMemoryPage (press img Button0 now s) = currentPage (press img Button0 now s)"
    by (simp add: e)
qed

theorem slide_transition_witness:
  "(1 :: int) \<le> 3 \<and> (3 :: int) \<le> 16
   \<and> (\<exists>d'. display_run (slideStep ramp True (SCREEN_W div 16) 3) dark = Some d'
          \<and> fb d' (5, 7) = ramp 1005 \<and> fb d' (30, 7) = 0)
   \<and> (\<exists>d'. display_run (slideStep ramp False (SCREEN_W div 16) 3) dark = Some d'
          \<and> fb d' (110, 7) = ramp 902 \<and> fb d' (5, 7) = 0)
   \<and> (\<exists>d'. display_run (concat (map (slideStep ramp False (SCREEN_W div 16)) [1..3])) dark
            = Some d'
          \<and> fb d' (110, 7) = ramp 902 \<and> fb d' (5, 7) = 0)
   \<and> (\<exists>d'. display_run (slideAnimation ramp True) dark = Some d' \<and> fb d' (5, 7) = ramp 901)
   \<and> (\<exists>d'. display_run (drawFullScreenImage ramp) snow = Some d'
          \<and> fb d' (100, 20) = ramp 2660 \<and> fb d' (0, 0) = ramp 0
          \<and> fb d' (127, 159) = ramp 20479 \<and> fb d' (128, 20) = 0xFFFF)
   \<and> consistent content_first
   \<and> currentState content_first = CONTENT \<and> selectedMenuItem content_first = 1
   \<and> uint (currentPage content_first) < uint (maxPages content_first) - 1
   \<and> emitted content_first (press blank Button1 9 content_first)
       = buttonPressVibration @ pageTurnVibration @ slideAnimation blank True
         @ pageIndicator 3 1
   \<and> consistent content_last
   \<and> currentState content_last = CONTENT \<and> selectedMenuItem content_last = 1
   \<and> 0 < currentPage content_last
   \<and> emitted content_last (press blank Button0 9 content_last)
       = buttonPressVibration @ pageTurnVibration @ slideAnimation blank False
         @ pageIndicator 3 1"
proof -
  have e: "(128 :: int) div 16 = 8" by simp
  have r: "(1 :: int) \<le> 3 \<and> (3 :: int) \<le> 16" by simp
  note f = slide_transition [of ramp True content_first 9]
  note b = slide_transition [of ramp False content_first 9]
  obtain d1 where d1: "display_run (slideStep ramp True (SCREEN_W div 16) 3) dark = Some d1"
    and p1: "\<And>x y. fb d1 (x, y)
                  = (if 0 \<le> y \<and> y < SCREEN_H
                        \<and> (if True then 0 \<le> x \<and> x < 3 * (SCREEN_W div 16)
                            else SCREEN_W - 3 * (SCREEN_W div 16) \<le> x \<and> x < SCREEN_W)
                     then ramp (y * SCREEN_W
                               + (if True then SCREEN_W - 3 * (SCREEN_W div 16) + x
                                  else x - (SCREEN_W - 3 * (SCREEN_W div 16))))
                     else fb dark (x, y))"
    using f [THEN conjunct2, THEN conjunct2, THEN conjunct1, rule_format, OF r, of dark]
    by blast
  obtain d2 where d2: "display_run (slideStep ramp False (SCREEN_W div 16) 3) dark = Some d2"
    and p2: "\<And>x y. fb d2 (x, y)
                  = (if 0 \<le> y \<and> y < SCREEN_H
                        \<and> (if False then 0 \<le> x \<and> x < 3 * (SCREEN_W div 16)
                            else SCREEN_W - 3 * (SCREEN_W div 16) \<le> x \<and> x < SCREEN_W)
                     then ramp (y * SCREEN_W
                               + (if False then SCREEN_W - 3 * (SCREEN_W div 16) + x
                                  else x - (SCREEN_W - 3 * (SCREEN_W div 16))))
                     else fb dark (x, y))"
    using b [THEN conjunct2, THEN conjunct2, THEN conjunct1, rule_format, OF r, of dark]
    by blast
  obtain d3 where d3: "display_run (slideAnimation ramp True) dark = Some d3"
    and p3: "\<And>x y. 0 \<le> x \<and> x < SCREEN_W \<and> 0 \<le> y \<and> y < SCREEN_H \<longrightarrow>
                 fb d3 (x, y) = ramp (y * SCREEN_W + x)"
    using f [THEN conjunct2, THEN conjunct2, THEN conjunct2, THEN conjunct2, THEN conjunct1,
        rule_format, of dark]
    by blast
  obtain d4 where
    d4: "display_run (concat (map (slideStep ramp False (SCREEN_W div 16)) [1..3])) dark = Some d4"
    and p4: "\<And>x y. fb d4 (x, y)
                  = (if 0 \<le> y \<and> y < SCREEN_H
                        \<and> (if False then 0 \<le> x \<and> x < 3 * (SCREEN_W div 16)
                            else SCREEN_W - 3 * (SCREEN_W div 16) \<le> x \<and> x < SCREEN_W)
                     then ramp (y * SCREEN_W
                               + (if False then SCREEN_W - 3 * (SCREEN_W div 16) + x
                                  else x - (SCREEN_W - 3 * (SCREEN_W div 16))))
                     else fb dark (x, y))"
    using b [THEN conjunct2, THEN conjunct2, THEN conjunct2, THEN conjunct1, rule_format, OF r,
        of dark]
    by blast
  note rest = f [THEN conjunct2, THEN conjunct2, THEN conjunct2, THEN conjunct2, THEN conjunct2]
  obtain d5 where d5: "display_run (drawFullScreenImage ramp) snow = Some d5"
    and p5: "\<And>x y. fb d5 (x, y)
                = (if 0 \<le> x \<and> x < SCREEN_W \<and> 0 \<le> y \<and> y < SCREEN_H
                   then ramp (y * SCREEN_W + x) else fb snow (x, y))"
    using rest [THEN conjunct2, THEN conjunct1, rule_format, of snow]
    by blast
  have s1: "\<exists>d'. display_run (slideStep ramp True (SCREEN_W div 16) 3) dark = Some d'
          \<and> fb d' (5, 7) = ramp 1005 \<and> fb d' (30, 7) = 0"
    using d1 by (simp add: p1 dark_def)
  have s2: "\<exists>d'. display_run (slideStep ramp False (SCREEN_W div 16) 3) dark = Some d'
          \<and> fb d' (110, 7) = ramp 902 \<and> fb d' (5, 7) = 0"
    using d2 by (simp add: p2 dark_def)
  have s4: "\<exists>d'. display_run (concat (map (slideStep ramp False (SCREEN_W div 16)) [1..3])) dark
            = Some d'
          \<and> fb d' (110, 7) = ramp 902 \<and> fb d' (5, 7) = 0"
    using d4 by (simp add: p4 dark_def)
  have s3: "\<exists>d'. display_run (slideAnimation ramp True) dark = Some d' \<and> fb d' (5, 7) = ramp 901"
    using d3 p3 [of 5 7] by simp
  have s5: "\<exists>d'. display_run (drawFullScreenImage ramp) snow = Some d'
          \<and> fb d' (100, 20) = ramp 2660 \<and> fb d' (0, 0) = ramp 0
          \<and> fb d' (127, 159) = ramp 20479 \<and> fb d' (128, 20) = 0xFFFF"
    using d5 by (simp add: p5 snow_def)
  have a: "consistent content_first
      \<and> currentState content_first = CONTENT \<and> selectedMenuItem content_first = 1"
    and a1: "uint (currentPage content_first) < uint (maxPages content_first) - 1"
    and am: "maxPages content_first = 3" "currentPage content_first + 1 = 1"
    by (simp_all add: content_first_def booted_def consistent_def pagesOf_def)
  have c: "consistent content_last
      \<and> currentState content_last = CONTENT \<and> selectedMenuItem content_last = 1"
    and c1: "0 < currentPage content_last"
    and cm: "maxPages content_last = 3" "currentPage content_last - 1 = 1"
    by (simp_all add: content_last_def content_first_def booted_def consistent_def pagesOf_def)
  note tail = slide_transition [of blank True _ 9, THEN conjunct2, THEN conjunct2,
      THEN conjunct2, THEN conjunct2, THEN conjunct2, THEN conjunct2, THEN conjunct2,
      THEN conjunct2, THEN conjunct2, rule_format]
  note g = tail [OF a, THEN conjunct1, rule_format, OF a1, THEN conjunct1]
  note h = tail [OF c, THEN conjunct2, rule_format, OF c1, THEN conjunct1]
  show ?thesis
    using r s1 s2 s4 s3 s5 a a1 c c1 g [unfolded am] h [unfolded cm] by (intro conjI) blast+
qed

text \<open>
  C10. In the Memories screen every pixel sent to the display, by the strips of the slide
  and by the full-screen blits alike, is read from the one image table, at an index inside
  it, whatever the page and the direction. Entering the screen blits that table, a page
  turn slides it in and blits it again, and after either the whole screen shows it. The
  slide is its sixteen strips followed by the blit; strip \<open>i\<close> pushes, for every row and
  every column of the strip, the entry of the table at that row and at the column the
  direction selects, and run on any panel it paints the strip with those entries and
  leaves the rest. The pages differ by the indicator dots drawn afterwards and by nothing
  else: of the three dots at columns 51, 64 and 77 the one of the current page is filled.
\<close>

theorem memories_pages_share_image:
  "(\<forall>e \<in> set (slideAnimation img direction). \<forall>c. e = PushColor c \<longrightarrow>
       (\<exists>k. 0 \<le> k \<and> k < SCREEN_W * SCREEN_H \<and> c = img k))
   \<and> (\<forall>e \<in> set (drawFullScreenImage img). \<forall>c. e = PushColor c \<longrightarrow>
       (\<exists>k. 0 \<le> k \<and> k < SCREEN_W * SCREEN_H \<and> c = img k))
   \<and> emitted s (showContent img 1 s)
       = vibrate VIB_MEDIUM @ drawFullScreenImage img @ pageIndicator 3 0
   \<and> emitted s (updatePageContent img 1 s)
       = pageTurnVibration @ slideAnimation img (currentPage s > lastMemoryPage s)
         @ pageIndicator (maxPages s) (currentPage s)
   \<and> (\<forall>d. \<exists>d'. display_run (drawFullScreenImage img) d = Some d'
          \<and> (\<forall>x y. 0 \<le> x \<and> x < SCREEN_W \<and> 0 \<le> y \<and> y < SCREEN_H \<longrightarrow>
                 fb d' (x, y) = img (y * SCREEN_W + x)))
   \<and> (\<forall>d. \<exists>d'. display_run (slideAnimation img direction) d = Some d'
          \<and> (\<forall>x y. 0 \<le> x \<and> x < SCREEN_W \<and> 0 \<le> y \<and> y < SCREEN_H \<longrightarrow>
                 fb d' (x, y) = img (y * SCREEN_W + x)))
   \<and> slideAnimation img direction
       = concat (map (slideStep img direction (SCREEN_W div 16)) [1..16])
         @ drawFullScreenImage img
   \<and> (\<forall>i x y. 1 \<le> i \<and> i \<le> 16 \<and> 0 \<le> y \<and> y < SCREEN_H
                \<and> 0 \<le> x \<and> x < i * (SCREEN_W div 16) \<longrightarrow>
         PushColor (img (y * SCREEN_W
                         + (if direction then SCREEN_W - i * (SCREEN_W div 16) + x else x)))
           \<in> set (slideStep img direction (SCREEN_W div 16) i))
   \<and> (\<forall>i d. 1 \<le> i \<and> i \<le> 16 \<longrightarrow>
         (\<exists>d'. display_run (slideStep img direction (SCREEN_W div 16) i) d = Some d'
            \<and> (\<forall>x y. fb d' (x, y)
                  = (if 0 \<le> y \<and> y < SCREEN_H
                        \<and> (if direction then 0 \<le> x \<and> x < i * (SCREEN_W div 16)
                            else SCREEN_W - i * (SCREEN_W div 16) \<le> x \<and> x < SCREEN_W)
                     then img (y * SCREEN_W
                               + (if direction then SCREEN_W - i * (SCREEN_W div 16) + x
                                  else x - (SCREEN_W - i * (SCREEN_W div 16))))
                     else fb d (x, y)))))
   \<and> pageIndicator 3 0
       = [FillCircle 51 148 4 ACCENT_PURPLE, DrawCircle 51 148 5 ACCENT_PURPLE,
          DrawCircle 64 148 2 CIRCLE_EMPTY, FillCircle 64 148 1 CIRCLE_EMPTY,
          DrawCircle 77 148 2 CIRCLE_EMPTY, FillCircle 77 148 1 CIRCLE_EMPTY]
   \<and> pageIndicator 3 1
       = [DrawCircle 51 148 2 CIRCLE_EMPTY, FillCircle 51 148 1 CIRCLE_EMPTY,
          FillCircle 64 148 4 ACCENT_PURPLE, DrawCircle 64 148 5 ACCENT_PURPLE,
          DrawCircle 77 148 2 CIRCLE_EMPTY, FillCircle 77 148 1 CIRCLE_EMPTY]
   \<and> pageIndicator 3 2
       = [DrawCircle 51 148 2 CIRCLE_EMPTY, FillCircle 51 148 1 CIRCLE_EMPTY,
          DrawCircle 64 148 2 CIRCLE_EMPTY, FillCircle 64 148 1 CIRCLE_EMPTY,
          FillCircle 77 148 4 ACCENT_PURPLE, DrawCircle 77 148 5 ACCENT_PURPLE]"
proof (intro conjI ballI allI impI)
  fix e c
  assume "e \<in> set (slideAnimation img direction)" and "e = PushColor c"
  then have "PushColor c \<in> set (slideAnimation img direction)" by simp
  then show "\<exists>k. 0 \<le> k \<and> k < SCREEN_W * SCREEN_H \<and> c = img k"
    by (rule slideAnimation_pixels)
next
  fix e c
  assume "e \<in> set (drawFullScreenImage img)" and "e = PushColor c"
  then have "PushColor c \<in> set (drawFullScreenImage img)" by simp
  then show "\<exists>k. 0 \<le> k \<and> k < SCREEN_W * SCREEN_H \<and> c = img k"
    by (rule drawFullScreenImage_pixels)
next
  show "emitted s (showContent img 1 s)
       = vibrate VIB_MEDIUM @ drawFullScreenImage img @ pageIndicator 3 0"
    by (rule emitted_append) (simp add: showContent_memories)
  show "emitted s (updatePageContent img 1 s)
       = pageTurnVibration @ slideAnimation img (currentPage s > lastMemoryPage s)
         @ pageIndicator (maxPages s) (currentPage s)"
    by (rule emitted_append) (simp add: updatePageContent_memories)
  show "slideAnimation img direction
       = concat (map (slideStep img direction (SCREEN_W div 16)) [1..16])
         @ drawFullScreenImage img"
    by (rule slideAnimation_steps)
  show "pageIndicator 3 0
       = [FillCircle 51 148 4 ACCENT_PURPLE, DrawCircle 51 148 5 ACCENT_PURPLE,
          DrawCircle 64 148 2 CIRCLE_EMPTY, FillCircle 64 148 1 CIRCLE_EMPTY,
          DrawCircle 77 148 2 CIRCLE_EMPTY, FillCircle 77 148 1 CIRCLE_EMPTY]"
    by (rule pageIndicator_three)
  show "pageIndicator 3 1
       = [DrawCircle 51 148 2 CIRCLE_EMPTY, FillCircle 51 148 1 CIRCLE_EMPTY,
          FillCircle 64 148 4 ACCENT_PURPLE, DrawCircle 64 148 5 ACCENT_PURPLE,
          DrawCircle 77 148 2 CIRCLE_EMPTY, FillCircle 77 148 1 CIRCLE_EMPTY]"
    by (rule pageIndicator_three)
  show "pageIndicator 3 2
       = [DrawCircle 51 148 2 CIRCLE_EMPTY, FillCircle 51 148 1 CIRCLE_EMPTY,
          DrawCircle 64 148 2 CIRCLE_EMPTY, FillCircle 64 148 1 CIRCLE_EMPTY,
          FillCircle 77 148 4 ACCENT_PURPLE, DrawCircle 77 148 5 ACCENT_PURPLE]"
    by (rule pageIndicator_three)
next
  fix d
  obtain d' where "display_run (drawFullScreenImage img) d = Some d'"
    and "\<And>x y. fb d' (x, y)
           = (if 0 \<le> x \<and> x < SCREEN_W \<and> 0 \<le> y \<and> y < SCREEN_H then img (y * SCREEN_W + x)
              else fb d (x, y))"
    using drawFullScreenImage_shows [of img d] by blast
  then show "\<exists>d'. display_run (drawFullScreenImage img) d = Some d'
          \<and> (\<forall>x y. 0 \<le> x \<and> x < SCREEN_W \<and> 0 \<le> y \<and> y < SCREEN_H \<longrightarrow>
                 fb d' (x, y) = img (y * SCREEN_W + x))"
    by auto
next
  fix d
  show "\<exists>d'. display_run (slideAnimation img direction) d = Some d'
          \<and> (\<forall>x y. 0 \<le> x \<and> x < SCREEN_W \<and> 0 \<le> y \<and> y < SCREEN_H \<longrightarrow>
                 fb d' (x, y) = img (y * SCREEN_W + x))"
    by (rule slideAnimation_shows)
next
  fix i x y :: int
  assume h: "1 \<le> i \<and> i \<le> 16 \<and> 0 \<le> y \<and> y < SCREEN_H \<and> 0 \<le> x \<and> x < i * (SCREEN_W div 16)"
  have e: "(128 :: int) div 16 = 8" by simp
  from h have "0 \<le> y" "y < SCREEN_H" "0 \<le> x" "x < i * 8" by simp_all
  then show "PushColor (img (y * SCREEN_W
                         + (if direction then SCREEN_W - i * (SCREEN_W div 16) + x else x)))
           \<in> set (slideStep img direction (SCREEN_W div 16) i)"
    unfolding e by (rule slideStep_pushes)
next
  fix i :: int and d :: panel
  assume "1 \<le> i \<and> i \<le> 16"
  then have "1 \<le> i" by blast
  have e: "(128 :: int) div 16 = 8" by simp
  show "\<exists>d'. display_run (slideStep img direction (SCREEN_W div 16) i) d = Some d'
            \<and> (\<forall>x y. fb d' (x, y)
                  = (if 0 \<le> y \<and> y < SCREEN_H
                        \<and> (if direction then 0 \<le> x \<and> x < i * (SCREEN_W div 16)
                            else SCREEN_W - i * (SCREEN_W div 16) \<le> x \<and> x < SCREEN_W)
                     then img (y * SCREEN_W
                               + (if direction then SCREEN_W - i * (SCREEN_W div 16) + x
                                  else x - (SCREEN_W - i * (SCREEN_W div 16))))
                     else fb d (x, y)))"
    unfolding e by (rule slideStep_shows [OF \<open>1 \<le> i\<close>])
qed

theorem memories_pages_share_image_witness:
  "PushColor (ramp 243) \<in> set (slideStep ramp True (SCREEN_W div 16) 2)
   \<and> PushColor (ramp 243) \<in> set (slideAnimation ramp True)
   \<and> PushColor (ramp 0) \<in> set (drawFullScreenImage ramp)
   \<and> (\<exists>k. 0 \<le> k \<and> k < SCREEN_W * SCREEN_H \<and> ramp 243 = ramp k)
   \<and> (\<exists>k. 0 \<le> k \<and> k < SCREEN_W * SCREEN_H \<and> ramp 0 = ramp k)
   \<and> (\<exists>d'. display_run (slideStep ramp True (SCREEN_W div 16) 2) dark = Some d'
          \<and> fb d' (3, 1) = ramp 243 \<and> fb d' (16, 1) = 0)
   \<and> (\<exists>d'. display_run (slideStep ramp False (SCREEN_W div 16) 2) dark = Some d'
          \<and> fb d' (115, 1) = ramp 131 \<and> fb d' (111, 1) = 0)
   \<and> (\<exists>d'. display_run (drawFullScreenImage ramp) dark = Some d' \<and> fb d' (5, 7) = ramp 901)
   \<and> (\<exists>d'. display_run (slideAnimation ramp False) dark = Some d' \<and> fb d' (5, 7) = ramp 901)"
proof -
  note t = memories_pages_share_image [of ramp True booted]
  note u = memories_pages_share_image [of ramp False booted]
  note t6 = t [THEN conjunct2, THEN conjunct2, THEN conjunct2, THEN conjunct2, THEN conjunct2,
      THEN conjunct2]
  note u6 = u [THEN conjunct2, THEN conjunct2, THEN conjunct2, THEN conjunct2, THEN conjunct2,
      THEN conjunct2]
  have q: "(1 :: int) \<le> 2 \<and> (2 :: int) \<le> 16 \<and> (0 :: int) \<le> 1 \<and> (1 :: int) < SCREEN_H
      \<and> (0 :: int) \<le> 3 \<and> (3 :: int) < 2 * (SCREEN_W div 16)"
    by simp
  have o: "PushColor (ramp 243) \<in> set (slideStep ramp True (SCREEN_W div 16) 2)"
    using t6 [THEN conjunct2, THEN conjunct1, rule_format, OF q] by simp
  have n: "PushColor (ramp 243) \<in> set (slideAnimation ramp True)"
    unfolding t6 [THEN conjunct1] using o by (auto intro!: bexI [of _ 2])
  have m: "PushColor (ramp 0) \<in> set (drawFullScreenImage ramp)"
    by (simp add: drawFullScreenImage_def in_for_events) (rule exI [of _ 0], simp)
  have k: "\<exists>k. 0 \<le> k \<and> k < SCREEN_W * SCREEN_H \<and> ramp 243 = ramp k"
    using t [THEN conjunct1, rule_format, OF n refl] .
  have k': "\<exists>k. 0 \<le> k \<and> k < SCREEN_W * SCREEN_H \<and> ramp 0 = ramp k"
    using t [THEN conjunct2, THEN conjunct1, rule_format, OF m refl] .
  have r: "(0 :: int) \<le> 5 \<and> (5 :: int) < SCREEN_W \<and> (0 :: int) \<le> 7 \<and> (7 :: int) < SCREEN_H"
    by simp
  have w: "(1 :: int) \<le> 2 \<and> (2 :: int) \<le> 16" by simp
  obtain d1 where d1: "display_run (drawFullScreenImage ramp) dark = Some d1"
    and p1: "\<And>x y. 0 \<le> x \<and> x < SCREEN_W \<and> 0 \<le> y \<and> y < SCREEN_H \<longrightarrow>
                 fb d1 (x, y) = ramp (y * SCREEN_W + x)"
    using t [THEN conjunct2, THEN conjunct2, THEN conjunct2, THEN conjunct2, THEN conjunct1,
        rule_format, of dark]
    by blast
  obtain d2 where d2: "display_run (slideAnimation ramp False) dark = Some d2"
    and p2: "\<And>x y. 0 \<le> x \<and> x < SCREEN_W \<and> 0 \<le> y \<and> y < SCREEN_H \<longrightarrow>
                 fb d2 (x, y) = ramp (y * SCREEN_W + x)"
    using u [THEN conjunct2, THEN conjunct2, THEN conjunct2, THEN conjunct2, THEN conjunct2,
        THEN conjunct1, rule_format, of dark]
    by blast
  obtain d3 where d3: "display_run (slideStep ramp True (SCREEN_W div 16) 2) dark = Some d3"
    and p3: "\<And>x y. fb d3 (x, y)
                  = (if 0 \<le> y \<and> y < SCREEN_H
                        \<and> (if True then 0 \<le> x \<and> x < 2 * (SCREEN_W div 16)
                            else SCREEN_W - 2 * (SCREEN_W div 16) \<le> x \<and> x < SCREEN_W)
                     then ramp (y * SCREEN_W
                               + (if True then SCREEN_W - 2 * (SCREEN_W div 16) + x
                                  else x - (SCREEN_W - 2 * (SCREEN_W div 16))))
                     else fb dark (x, y))"
    using t6 [THEN conjunct2, THEN conjunct2, THEN conjunct1, rule_format, OF w, of dark]
    by blast
  obtain d4 where d4: "display_run (slideStep ramp False (SCREEN_W div 16) 2) dark = Some d4"
    and p4: "\<And>x y. fb d4 (x, y)
                  = (if 0 \<le> y \<and> y < SCREEN_H
                        \<and> (if False then 0 \<le> x \<and> x < 2 * (SCREEN_W div 16)
                            else SCREEN_W - 2 * (SCREEN_W div 16) \<le> x \<and> x < SCREEN_W)
                     then ramp (y * SCREEN_W
                               + (if False then SCREEN_W - 2 * (SCREEN_W div 16) + x
                                  else x - (SCREEN_W - 2 * (SCREEN_W div 16))))
                     else fb dark (x, y))"
    using u6 [THEN conjunct2, THEN conjunct2, THEN conjunct1, rule_format, OF w, of dark]
    by blast
  have s1: "\<exists>d'. display_run (drawFullScreenImage ramp) dark = Some d' \<and> fb d' (5, 7) = ramp 901"
    using d1 p1 [rule_format, OF r] by simp
  have s2: "\<exists>d'. display_run (slideAnimation ramp False) dark = Some d' \<and> fb d' (5, 7) = ramp 901"
    using d2 p2 [rule_format, OF r] by simp
  have s3: "\<exists>d'. display_run (slideStep ramp True (SCREEN_W div 16) 2) dark = Some d'
          \<and> fb d' (3, 1) = ramp 243 \<and> fb d' (16, 1) = 0"
    using d3 by (simp add: p3 dark_def)
  have s4: "\<exists>d'. display_run (slideStep ramp False (SCREEN_W div 16) 2) dark = Some d'
          \<and> fb d' (115, 1) = ramp 131 \<and> fb d' (111, 1) = 0"
    using d4 by (simp add: p4 dark_def)
  from o n m k k' s3 s4 s1 s2 show ?thesis by (intro conjI)
qed

section \<open>Walking through the Memories screen\<close>

lemma showContent_titled:
  assumes "ci = 0 \<or> ci = 2 \<or> ci = 3"
  shows "\<exists>rest. emitted s (showContent img ci s) = vibrate VIB_MEDIUM @ titleBar ci @ rest"
  using assms
  by (auto simp: showContent_def Let_def emit_def emitted_def drawAboutContent_def
      drawPageIndicator_def)

lemma titleBar_kinds:
  assumes "e \<in> set (titleBar ci)"
  shows "(\<exists>x y w c. e = DrawFastHLine x y w c) \<or> (\<exists>x y w h r c. e = FillRoundRect x y w h r c)
       \<or> (\<exists>n. e = SetTextSize n) \<or> (\<exists>c. e = SetTextColor c) \<or> (\<exists>x y. e = SetCursor x y)
       \<or> (\<exists>t. e = Print t)"
  using assms by (auto simp: titleBar_def menuGradient_def Let_def in_for_events)

lemma memories_entry_kinds:
  assumes "e \<in> set (buttonPressVibration @ vibrate VIB_MEDIUM @ drawFullScreenImage img
                      @ pageIndicator 3 0 @ setRGBLeds (Color 50 50 50))"
  shows "(\<exists>v. e = MotorWrite v) \<or> (\<exists>n. e = Delay n) \<or> e = StartWrite \<or> e = EndWrite
       \<or> (\<exists>x y w h. e = SetAddrWindow x y w h) \<or> (\<exists>c. e = PushColor c)
       \<or> (\<exists>x y r c. e = FillCircle x y r c) \<or> (\<exists>x y r c. e = DrawCircle x y r c)
       \<or> (\<exists>i c. e = SetPixelColor i c) \<or> e = LedShow"
  using assms
  by (auto simp: buttonPressVibration_def vibrate_def drawFullScreenImage_def pageIndicator_def
      setRGBLeds_def Let_def in_for_events split: if_splits)

lemma titleBar_entries:
  "titleBar 0
     = menuGradient 0 SCREEN_H
       @ [FillRoundRect 6 7 116 22 10 (RGB 180 185 195),
          FillRoundRect 5 5 116 22 10 ACCENT_PURPLE,
          SetTextSize 1, SetTextColor CARD_BG, SetCursor 31 12, Print ''Hope Letter'']"
  "titleBar 1
     = menuGradient 0 SCREEN_H
       @ [FillRoundRect 6 7 116 22 10 (RGB 180 185 195),
          FillRoundRect 5 5 116 22 10 ACCENT_PINK,
          SetTextSize 1, SetTextColor CARD_BG, SetCursor 40 12, Print ''Memories'']"
  "titleBar 2
     = menuGradient 0 SCREEN_H
       @ [FillRoundRect 6 7 116 22 10 (RGB 180 185 195),
          FillRoundRect 5 5 116 22 10 ACCENT_BLUE,
          SetTextSize 1, SetTextColor CARD_BG, SetCursor 49 12, Print ''Quote'']"
  "titleBar 3
     = menuGradient 0 SCREEN_H
       @ [FillRoundRect 6 7 116 22 10 (RGB 180 185 195),
          FillRoundRect 5 5 116 22 10 ACCENT_ORANGE,
          SetTextSize 1, SetTextColor CARD_BG, SetCursor 49 12, Print ''About'']"
  by (simp_all add: titleBar_def Let_def titles_def colors_def)

text \<open>
  C8. From the menu with entry 1 (Memories) selected: Select enters the content state at
  page 0 of 3 and blits the image, with none of the title bar's drawing, while entries 0, 2
  and 3 all start with the title bar; two presses of Down reach page 1 and then page 2,
  each sliding forward; Back returns to the menu with entry 1 still selected. The title
  bar of an entry is the 160 lines of the gradient, the shadowed bar in the entry's colour
  and the centred title, and no event of any entry's title bar is among those that entering
  Memories emits. The blit paints every pixel of the screen from the image; the forward
  slide begins with strips that grow from the left edge and show the rightmost columns of
  the image, and ends with the whole screen showing it.
\<close>

theorem memories_walkthrough:
  assumes "currentState s = MENU" and "selectedMenuItem s = 1"
  shows "currentState (presses img [(ButtonSelect, t1)] s) = CONTENT
       \<and> currentPage (presses img [(ButtonSelect, t1)] s) = 0
       \<and> maxPages (presses img [(ButtonSelect, t1)] s) = 3
       \<and> emitted s (presses img [(ButtonSelect, t1)] s)
           = buttonPressVibration @ vibrate VIB_MEDIUM @ drawFullScreenImage img
             @ pageIndicator 3 0 @ setRGBLeds (Color 50 50 50)
       \<and> set (titleBar 1) \<inter> set (emitted s (presses img [(ButtonSelect, t1)] s)) = {}
       \<and> (\<forall>ci \<in> {0, 2, 3}.
             \<exists>rest. emitted s (showContent img ci s) = vibrate VIB_MEDIUM @ titleBar ci @ rest)
       \<and> currentPage (presses img [(ButtonSelect, t1), (Button1, t2)] s) = 1
       \<and> emitted (presses img [(ButtonSelect, t1)] s)
             (presses img [(ButtonSelect, t1), (Button1, t2)] s)
           = buttonPressVibration @ pageTurnVibration @ slideAnimation img True
             @ pageIndicator 3 1
       \<and> currentState (presses img [(ButtonSelect, t1), (Button1, t2), (Button1, t3)] s)
           = CONTENT
       \<and> currentPage (presses img [(ButtonSelect, t1), (Button1, t2), (Button1, t3)] s) = 2
       \<and> emitted (presses img [(ButtonSelect, t1), (Button1, t2)] s)
             (presses img [(ButtonSelect, t1), (Button1, t2), (Button1, t3)] s)
           = buttonPressVibration @ pageTurnVibration @ slideAnimation img True
             @ pageIndicator 3 2
       \<and> currentState
             (presses img [(ButtonSelect, t1), (Button1, t2), (Button1, t3), (ButtonBack, t4)] s)
           = MENU
       \<and> selectedMenuItem
             (presses img [(ButtonSelect, t1), (Button1, t2), (Button1, t3), (ButtonBack, t4)] s)
           = 1
       \<and> titleBar 0
           = menuGradient 0 SCREEN_H
             @ [FillRoundRect 6 7 116 22 10 (RGB 180 185 195),
                FillRoundRect 5 5 116 22 10 ACCENT_PURPLE,
                SetTextSize 1, SetTextColor CARD_BG, SetCursor 31 12, Print ''Hope Letter'']
       \<and> titleBar 1
           = menuGradient 0 SCREEN_H
             @ [FillRoundRect 6 7 116 22 10 (RGB 180 185 195),
                FillRoundRect 5 5 116 22 10 ACCENT_PINK,
                SetTextSize 1, SetTextColor CARD_BG, SetCursor 40 12, Print ''Memories'']
       \<and> titleBar 2
           = menuGradient 0 SCREEN_H
             @ [FillRoundRect 6 7 116 22 10 (RGB 180 185 195),
                FillRoundRect 5 5 116 22 10 ACCENT_BLUE,
                SetTextSize 1, SetTextColor CARD_BG, SetCursor 49 12, Print ''Quote'']
       \<and> titleBar 3
           = menuGradient 0 SCREEN_H
             @ [FillRoundRect 6 7 116 22 10 (RGB 180 185 195),
                FillRoundRect 5 5 116 22 10 ACCENT_ORANGE,
                SetTextSize 1, SetTextColor CARD_BG, SetCursor 49 12, Print ''About'']
       \<and> length (menuGradient 0 SCREEN_H) = 160
       \<and> (\<forall>ci. set (titleBar ci) \<inter> set (emitted s (presses img [(ButtonSelect, t1)] s)) = {})
       \<and> (\<forall>d. \<exists>d'. display_run (drawFullScreenImage img) d = Some d'
              \<and> (\<forall>x y. fb d' (x, y)
                    = (if 0 \<le> x \<and> x < SCREEN_W \<and> 0 \<le> y \<and> y < SCREEN_H
                       then img (y * SCREEN_W + x) else fb d (x, y))))
       \<and> (\<forall>i d. 1 \<le> i \<and> i \<le> 16 \<longrightarrow>
             (\<exists>rest d'.
                 slideAnimation img True
                   = concat (map (slideStep img True (SCREEN_W div 16)) [1..i]) @ rest
                 \<and> display_run
                     (concat (map (slideStep img True (SCREEN_W div 16)) [1..i])) d = Some d'
                 \<and> (\<forall>x y. fb d' (x, y)
                       = (if 0 \<le> y \<and> y < SCREEN_H \<and> 0 \<le> x \<and> x < i * (SCREEN_W div 16)
                          then img (y * SCREEN_W + (SCREEN_W - i * (SCREEN_W div 16) + x))
                          else fb d (x, y)))))
       \<and> (\<forall>d. \<exists>d'. display_run (slideAnimation img True) d = Some d'
              \<and> (\<forall>x y. 0 \<le> x \<and> x < SCREEN_W \<and> 0 \<le> y \<and> y < SCREEN_H \<longrightarrow>
                     fb d' (x, y) = img (y * SCREEN_W + x)))"
proof -
  define a where "a = press img ButtonSelect t1 s"
  define b where "b = press img Button1 t2 a"
  define c where "c = press img Button1 t3 b"
  define d where "d = press img ButtonBack t4 c"
  have pa: "presses img [(ButtonSelect, t1)] s = a"
    and pb: "presses img [(ButtonSelect, t1), (Button1, t2)] s = b"
    and pc: "presses img [(ButtonSelect, t1), (Button1, t2), (Button1, t3)] s = c"
    and pd: "presses img [(ButtonSelect, t1), (Button1, t2), (Button1, t3), (ButtonBack, t4)] s = d"
    by (simp_all add: a_def b_def c_def d_def)
  note ea = pressSelect_memories [OF assms, of img t1, folded a_def]
  have fa: "currentState a = CONTENT" "selectedMenuItem a = 1" "lastMemoryPage a = currentPage a"
    "currentPage a = 0" "maxPages a = 3"
    using assms(2) by (simp_all add: ea)
  have ta: "emitted s a
           = buttonPressVibration @ vibrate VIB_MEDIUM @ drawFullScreenImage img
             @ pageIndicator 3 0 @ setRGBLeds (Color 50 50 50)"
    by (rule emitted_append) (simp add: ea)
  have na: "uint (currentPage a) < uint (maxPages a) - 1" by (simp add: fa)
  note eb = press1_memories [OF fa(1) fa(2) fa(3) na, of img t2, folded b_def]
  have fb: "currentState b = CONTENT" "selectedMenuItem b = 1" "lastMemoryPage b = currentPage b"
    "currentPage b = 1" "maxPages b = 3"
    using fa by (simp_all add: eb)
  have tb: "emitted a b
           = buttonPressVibration @ pageTurnVibration @ slideAnimation img True
             @ pageIndicator 3 1"
    by (rule emitted_append) (simp add: eb fa)
  have nb: "uint (currentPage b) < uint (maxPages b) - 1" by (simp add: fb)
  note ec = press1_memories [OF fb(1) fb(2) fb(3) nb, of img t3, folded c_def]
  have fc: "currentState c = CONTENT" "selectedMenuItem c = 1" "currentPage c = 2"
    using fb by (simp_all add: ec)
  have tc: "emitted b c
           = buttonPressVibration @ pageTurnVibration @ slideAnimation img True
             @ pageIndicator 3 2"
    by (rule emitted_append) (simp add: ec fb)
  have fd: "currentState d = MENU" "selectedMenuItem d = 1"
    using pressBack_content [OF fc(1), of img t4] fc(2) by (simp_all add: d_def)
  have bars: "set (titleBar ci) \<inter> set (emitted s a) = {}" for ci
  proof -
    have "e \<notin> set (emitted s a)" if "e \<in> set (titleBar ci)" for e
      using titleBar_kinds [OF that] memories_entry_kinds [of e img] unfolding ta by auto
    then show ?thesis by auto
  qed
  have bar: "set (titleBar 1) \<inter> set (emitted s a) = {}"
    by (rule bars)
  have allbars: "\<forall>ci. set (titleBar ci) \<inter> set (emitted s a) = {}"
    using bars by blast
  have others: "\<forall>ci \<in> {0, 2, 3}.
      \<exists>rest. emitted s (showContent img ci s) = vibrate VIB_MEDIUM @ titleBar ci @ rest"
    using showContent_titled by blast
  have gradient: "length (menuGradient 0 SCREEN_H) = 160"
    by (simp add: menuGradient_def Let_def for_events_upto concat_singletons)
  have blit: "\<forall>d. \<exists>d'. display_run (drawFullScreenImage img) d = Some d'
              \<and> (\<forall>x y. fb d' (x, y)
                    = (if 0 \<le> x \<and> x < SCREEN_W \<and> 0 \<le> y \<and> y < SCREEN_H
                       then img (y * SCREEN_W + x) else fb d (x, y)))"
    using drawFullScreenImage_shows [of img] by blast
  have e: "(128 :: int) div 16 = 8" by simp
  have forward: "\<forall>i d. 1 \<le> i \<and> i \<le> 16 \<longrightarrow>
             (\<exists>rest d'.
                 slideAnimation img True
                   = concat (map (slideStep img True (SCREEN_W div 16)) [1..i]) @ rest
                 \<and> display_run
                     (concat (map (slideStep img True (SCREEN_W div 16)) [1..i])) d = Some d'
                 \<and> (\<forall>x y. fb d' (x, y)
                       = (if 0 \<le> y \<and> y < SCREEN_H \<and> 0 \<le> x \<and> x < i * (SCREEN_W div 16)
                          then img (y * SCREEN_W + (SCREEN_W - i * (SCREEN_W div 16) + x))
                          else fb d (x, y))))"
  proof (intro allI impI)
    fix i :: int and d :: panel
    assume r: "1 \<le> i \<and> i \<le> 16"
    then have i: "1 \<le> i" "i \<le> 16" by simp_all
    obtain rest where
      p: "slideAnimation img True
            = concat (map (slideStep img True (SCREEN_W div 16)) [1..i]) @ rest"
      using slide_prefix [OF i, of img True] by blast
    obtain d' where
      q: "display_run (concat (map (slideStep img True 8) [1..i])) d = Some d'"
      and v: "\<And>x y. fb d' (x, y)
           = (if 0 \<le> y \<and> y < SCREEN_H
                 \<and> (if True then 0 \<le> x \<and> x < i * 8
                     else SCREEN_W - i * 8 \<le> x \<and> x < SCREEN_W)
              then img (y * SCREEN_W
                        + (if True then SCREEN_W - i * 8 + x else x - (SCREEN_W - i * 8)))
              else fb d (x, y))"
      using slide_prefix_shows [OF i(1), of img True d] by blast
    have "\<forall>x y. fb d' (x, y)
                       = (if 0 \<le> y \<and> y < SCREEN_H \<and> 0 \<le> x \<and> x < i * (SCREEN_W div 16)
                          then img (y * SCREEN_W + (SCREEN_W - i * (SCREEN_W div 16) + x))
                          else fb d (x, y))"
      by (simp add: v)
    with p q show "\<exists>rest d'.
                 slideAnimation img True
                   = concat (map (slideStep img True (SCREEN_W div 16)) [1..i]) @ rest
                 \<and> display_run
                     (concat (map (slideStep img True (SCREEN_W div 16)) [1..i])) d = Some d'
                 \<and> (\<forall>x y. fb d' (x, y)
                       = (if 0 \<le> y \<and> y < SCREEN_H \<and> 0 \<le> x \<and> x < i * (SCREEN_W div 16)
                          then img (y * SCREEN_W + (SCREEN_W - i * (SCREEN_W div 16) + x))
                          else fb d (x, y)))"
      unfolding e by blast
  qed
  have whole: "\<forall>d. \<exists>d'. display_run (slideAnimation img True) d = Some d'
              \<and> (\<forall>x y. 0 \<le> x \<and> x < SCREEN_W \<and> 0 \<le> y \<and> y < SCREEN_H \<longrightarrow>
                     fb d' (x, y) = img (y * SCREEN_W + x))"
    using slideAnimation_shows [of img True] by blast
  show ?thesis
    unfolding pa pb pc pd
    by (intro conjI fa(1) fa(4) fa(5) ta bar others fb(4) tb fc(1) fc(3) tc fd
        titleBar_entries gradient allbars blit forward whole)
qed

theorem memories_walkthrough_witness:
  "currentState menu_at_memories = MENU \<and> selectedMenuItem menu_at_memories = 1
   \<and> currentState (presses ramp [(ButtonSelect, 1)] menu_at_memories) = CONTENT
   \<and> currentPage (presses ramp [(ButtonSelect, 1)] menu_at_memories) = 0
   \<and> (\<exists>rest. emitted menu_at_memories (showContent ramp 0 menu_at_memories)
                = vibrate VIB_MEDIUM @ titleBar 0 @ rest)
   \<and> (\<exists>rest. emitted menu_at_memories (showContent ramp 2 menu_at_memories)
                = vibrate VIB_MEDIUM @ titleBar 2 @ rest)
   \<and> (\<exists>rest. emitted menu_at_memories (showContent ramp 3 menu_at_memories)
                = vibrate VIB_MEDIUM @ titleBar 3 @ rest)
   \<and> Print ''Memories'' \<in> set (titleBar 1)
   \<and> Print ''Memories''
        \<notin> set (emitted menu_at_memories (presses ramp [(ButtonSelect, 1)] menu_at_memories))
   \<and> currentPage (presses ramp [(ButtonSelect, 1), (Button1, 2), (Button1, 3)]
         menu_at_memories) = 2
   \<and> emitted (presses ramp [(ButtonSelect, 1), (Button1, 2)] menu_at_memories)
         (presses ramp [(ButtonSelect, 1), (Button1, 2), (Button1, 3)] menu_at_memories)
       = buttonPressVibration @ pageTurnVibration @ slideAnimation ramp True
         @ pageIndicator 3 2
   \<and> (1 :: int) \<le> 3 \<and> (3 :: int) \<le> 16
   \<and> (\<exists>rest d'.
         slideAnimation ramp True
           = concat (map (slideStep ramp True (SCREEN_W div 16)) [1..3]) @ rest
         \<and> display_run (concat (map (slideStep ramp True (SCREEN_W div 16)) [1..3])) dark
             = Some d'
         \<and> fb d' (5, 7) = ramp 1005 \<and> fb d' (30, 7) = 0)
   \<and> (\<exists>d'. display_run (drawFullScreenImage ramp) dark = Some d'
          \<and> fb d' (9, 2) = ramp 265 \<and> fb d' (9, 160) = 0)
   \<and> currentState (presses ramp [(ButtonSelect, 1), (Button1, 2), (Button1, 3),
         (ButtonBack, 4)] menu_at_memories) = MENU
   \<and> selectedMenuItem (presses ramp [(ButtonSelect, 1), (Button1, 2), (Button1, 3),
         (ButtonBack, 4)] menu_at_memories) = 1"
proof -
  have h: "currentState menu_at_memories = MENU" "selectedMenuItem menu_at_memories = 1"
    by (simp_all add: menu_at_memories_def booted_def)
  note t = memories_walkthrough [OF h, of ramp 1 2 3 4]
  have z: "(0 :: int) \<in> {0, 2, 3}" "(2 :: int) \<in> {0, 2, 3}" "(3 :: int) \<in> {0, 2, 3}"
    by simp_all
  have r: "(1 :: int) \<le> 3 \<and> (3 :: int) \<le> 16" by simp
  note c1 = t [THEN conjunct1]
  note c2 = t [THEN conjunct2, THEN conjunct1]
  note c5 = t [THEN conjunct2, THEN conjunct2, THEN conjunct2, THEN conjunct2, THEN conjunct1]
  note c6 = t [THEN conjunct2, THEN conjunct2, THEN conjunct2, THEN conjunct2, THEN conjunct2,
      THEN conjunct1, rule_format]
  note r6 = t [THEN conjunct2, THEN conjunct2, THEN conjunct2, THEN conjunct2, THEN conjunct2,
      THEN conjunct2]
  note c10 = r6 [THEN conjunct2, THEN conjunct2, THEN conjunct2, THEN conjunct1]
  note c11 = r6 [THEN conjunct2, THEN conjunct2, THEN conjunct2, THEN conjunct2, THEN conjunct1]
  note c12 = r6 [THEN conjunct2, THEN conjunct2, THEN conjunct2, THEN conjunct2, THEN conjunct2,
      THEN conjunct1]
  note r13 = r6 [THEN conjunct2, THEN conjunct2, THEN conjunct2, THEN conjunct2, THEN conjunct2,
      THEN conjunct2]
  note c13 = r13 [THEN conjunct1]
  note c15 = r13 [THEN conjunct2, THEN conjunct2, THEN conjunct1]
  note r19 = r13 [THEN conjunct2, THEN conjunct2, THEN conjunct2, THEN conjunct2, THEN conjunct2,
      THEN conjunct2]
  note c20 = r19 [THEN conjunct2, THEN conjunct1, rule_format, of dark]
  note c21 = r19 [THEN conjunct2, THEN conjunct2, THEN conjunct1, rule_format, OF r, of dark]
  have m: "Print ''Memories'' \<in> set (titleBar 1)"
    unfolding c15 by simp
  have n: "Print ''Memories''
        \<notin> set (emitted menu_at_memories (presses ramp [(ButtonSelect, 1)] menu_at_memories))"
    using c5 m by blast
  obtain rest d1 where
    p1: "slideAnimation ramp True
           = concat (map (slideStep ramp True (SCREEN_W div 16)) [1..3]) @ rest"
    and q1: "display_run (concat (map (slideStep ramp True (SCREEN_W div 16)) [1..3])) dark
             = Some d1"
    and v1: "\<And>x y. fb d1 (x, y)
                       = (if 0 \<le> y \<and> y < SCREEN_H \<and> 0 \<le> x \<and> x < 3 * (SCREEN_W div 16)
                          then ramp (y * SCREEN_W + (SCREEN_W - 3 * (SCREEN_W div 16) + x))
                          else fb dark (x, y))"
    using c21 by blast
  obtain d2 where q2: "display_run (drawFullScreenImage ramp) dark = Some d2"
    and v2: "\<And>x y. fb d2 (x, y)
                    = (if 0 \<le> x \<and> x < SCREEN_W \<and> 0 \<le> y \<and> y < SCREEN_H
                       then ramp (y * SCREEN_W + x) else fb dark (x, y))"
    using c20 by blast
  have s1: "\<exists>rest d'.
         slideAnimation ramp True
           = concat (map (slideStep ramp True (SCREEN_W div 16)) [1..3]) @ rest
         \<and> display_run (concat (map (slideStep ramp True (SCREEN_W div 16)) [1..3])) dark
             = Some d'
         \<and> fb d' (5, 7) = ramp 1005 \<and> fb d' (30, 7) = 0"
  proof (intro exI conjI)
    show "slideAnimation ramp True
           = concat (map (slideStep ramp True (SCREEN_W div 16)) [1..3]) @ rest"
      by (rule p1)
    show "display_run (concat (map (slideStep ramp True (SCREEN_W div 16)) [1..3])) dark
             = Some d1"
      by (rule q1)
    show "fb d1 (5, 7) = ramp 1005" by (simp add: v1)
    show "fb d1 (30, 7) = 0" by (simp add: v1 dark_def)
  qed
  have s2: "\<exists>d'. display_run (drawFullScreenImage ramp) dark = Some d'
          \<and> fb d' (9, 2) = ramp 265 \<and> fb d' (9, 160) = 0"
    using q2 by (simp add: v2 dark_def)
  show ?thesis
    by (intro conjI h c1 c2 c6 [OF z(1)] c6 [OF z(2)] c6 [OF z(3)] m n c10 c11
        r [THEN conjunct1] r [THEN conjunct2] s1 s2 c12 c13)
qed

end
